theory Spec2Isabelle
  imports Complex_Main
begin

section \<open>Data model of the parking system (src/app/page.tsx)\<close>

text \<open>
  Timestamps are the millisecond values of JavaScript \<open>Date\<close> objects (the ISO strings
  the component stores are produced by \<open>toISOString\<close> and read back by \<open>new Date\<close>,
  which is lossless at millisecond precision). The \<open>number\<close> fields of the source
  (hours, amounts, minutes) are modelled as integers, the range in which the source's
  floating point arithmetic is exact. Optional fields of the TypeScript interfaces are
  options.
\<close>

datatype VehicleType = bike | car | truck | bus

datatype Status = active | completed

record ParkingSession =
  sessionId :: string
  vehicleNumber :: string
  vehicleType :: VehicleType
  entryTime :: int
  exitTime :: "int option"
  sessionAmount :: "int option"
  durationMinutes :: "int option"
  isFree :: "bool option"
  proofImage :: "string option"
  status :: Status

record MembershipPass =
  passId :: string
  passVehicleNumber :: string
  passVehicleType :: VehicleType
  holderName :: string
  expiryDate :: int

record PricingRule =
  hours :: int
  amount :: int

text \<open>The object \<open>{ amount, durationMinutes }\<close> returned by \<open>calculateBill\<close>.\<close>

record Bill =
  billAmount :: int
  billMinutes :: int

section \<open>The pricing engine: \<open>calculateBill\<close>\<close>

text \<open>
  \<open>differenceInMinutes\<close> of date-fns: the millisecond difference of its two arguments
  divided by 60000 and truncated toward zero.
\<close>

definition differenceInMinutes :: "int \<Rightarrow> int \<Rightarrow> int" where
  "differenceInMinutes dateLeft dateRight =
     (let diff = dateLeft - dateRight
      in if 0 \<le> diff then diff div 60000 else - ((- diff) div 60000))"

text \<open>\<open>Math.ceil(totalMinutes / 60)\<close> on an integer number of minutes.\<close>

definition ceilHours :: "int \<Rightarrow> int" where
  "ceilHours totalMinutes = - ((- totalMinutes) div 60)"

text \<open>
  \<open>pricingRules[session.vehicleType] || []\<close>: a category missing from the loaded
  settings object reads as the empty rule list.
\<close>

definition rulesFor :: "(VehicleType \<Rightarrow> PricingRule list option) \<Rightarrow> VehicleType \<Rightarrow> PricingRule list" where
  "rulesFor pricingRules t = (case pricingRules t of None \<Rightarrow> [] | Some rs \<Rightarrow> rs)"

text \<open>
  \<open>[...currentRules].sort((a, b) => b.hours - a.hours)\<close>: a stable sort, descending by
  \<open>hours\<close>.
\<close>

definition sortedRules :: "PricingRule list \<Rightarrow> PricingRule list" where
  "sortedRules currentRules = sort_key (\<lambda>r. - hours r) currentRules"

text \<open>
  \<open>currentRules.find(r => r.hours === 1)?.amount || 50\<close>: a missing one-hour rule,
  and also a one-hour rule whose amount is 0, give the rate 50.
\<close>

definition baseHourRate :: "PricingRule list \<Rightarrow> int" where
  "baseHourRate currentRules =
     (case find (\<lambda>r. hours r = 1) currentRules of
        None \<Rightarrow> 50
      | Some r \<Rightarrow> if amount r = 0 then 50 else amount r)"

definition calculateBill ::
  "int \<Rightarrow> (VehicleType \<Rightarrow> PricingRule list option) \<Rightarrow> ParkingSession \<Rightarrow> int \<Rightarrow> Bill" where
  "calculateBill graceTimeMinutes pricingRules session exitT =
     (if isFree session = Some True
      then \<lparr>billAmount = 0, billMinutes = differenceInMinutes exitT (entryTime session)\<rparr>
      else
        let totalMinutes = differenceInMinutes exitT (entryTime session)
        in if totalMinutes \<le> graceTimeMinutes
           then \<lparr>billAmount = 0, billMinutes = totalMinutes\<rparr>
           else
             let currentRules = rulesFor pricingRules (vehicleType session);
                 totalHours = ceilHours totalMinutes
             in (case find (\<lambda>rule. hours rule \<le> totalHours) (sortedRules currentRules) of
                   Some applicableRule \<Rightarrow>
                     \<lparr>billAmount = amount applicableRule, billMinutes = totalMinutes\<rparr>
                 | None \<Rightarrow>
                     \<lparr>billAmount = totalHours * baseHourRate currentRules,
                      billMinutes = totalMinutes\<rparr>))"

text \<open>The default tariff table and grace time the component starts with.\<close>

definition defaultPricingRules :: "VehicleType \<Rightarrow> PricingRule list option" where
  "defaultPricingRules t =
     Some (case t of
        bike \<Rightarrow> [\<lparr>hours = 1, amount = 20\<rparr>, \<lparr>hours = 12, amount = 150\<rparr>, \<lparr>hours = 24, amount = 250\<rparr>]
      | car \<Rightarrow> [\<lparr>hours = 1, amount = 50\<rparr>, \<lparr>hours = 12, amount = 500\<rparr>, \<lparr>hours = 24, amount = 900\<rparr>]
      | truck \<Rightarrow> [\<lparr>hours = 1, amount = 100\<rparr>, \<lparr>hours = 12, amount = 1000\<rparr>, \<lparr>hours = 24, amount = 1800\<rparr>]
      | bus \<Rightarrow> [\<lparr>hours = 1, amount = 80\<rparr>, \<lparr>hours = 12, amount = 800\<rparr>, \<lparr>hours = 24, amount = 1500\<rparr>])"

definition defaultGraceTimeMinutes :: int where
  "defaultGraceTimeMinutes = 15"

text \<open>A session as \<open>handleEntry\<close> creates it.\<close>

definition newSession :: "string \<Rightarrow> string \<Rightarrow> VehicleType \<Rightarrow> int \<Rightarrow> bool \<Rightarrow> string option \<Rightarrow> ParkingSession" where
  "newSession i v t now free proof =
     \<lparr>sessionId = i, vehicleNumber = v, vehicleType = t, entryTime = now,
      exitTime = None, sessionAmount = None, durationMinutes = None,
      isFree = Some free, proofImage = proof, status = active\<rparr>"

section \<open>The component state and its handlers\<close>

text \<open>
  The React state the handlers read and write. \<open>formVehicleNumber\<close>, \<open>formVehicleType\<close>,
  \<open>formIsFree\<close> and \<open>formProofImage\<close> are the entry form's \<open>vehicleNumber\<close>,
  \<open>vehicleType\<close>, \<open>isFree\<close> and \<open>proofImage\<close>. A handler reads the clock once
  (\<open>now\<close>), and what it asks of the outside world is an argument: the user id in local
  storage, the random session id, and whether the database call reported an error.
\<close>

record AppState =
  sessions :: "ParkingSession list"
  passes :: "MembershipPass list"
  graceTimeMinutes :: int
  pricingRules :: "VehicleType \<Rightarrow> PricingRule list option"
  formVehicleNumber :: string
  formVehicleType :: VehicleType
  formIsFree :: bool
  formProofImage :: "string option"
  exitId :: string
  currentBill :: "ParkingSession option"
  showScanner :: bool

text \<open>\<open>!userId\<close> on the result of \<open>getUserId\<close>: no stored id, or the id 0.\<close>

definition notLoggedIn :: "int option \<Rightarrow> bool" where
  "notLoggedIn userId = (case userId of None \<Rightarrow> True | Some n \<Rightarrow> n = 0)"

text \<open>\<open>isBefore\<close> and \<open>isAfter\<close> of date-fns compare the two instants strictly.\<close>

definition isBefore :: "int \<Rightarrow> int \<Rightarrow> bool" where
  "isBefore date dateToCompare = (date < dateToCompare)"

definition isAfter :: "int \<Rightarrow> int \<Rightarrow> bool" where
  "isAfter date dateToCompare = (dateToCompare < date)"

text \<open>
  What a call of \<open>handleEntry\<close> ends with: the silent return on an empty vehicle number
  (\<open>EntryIgnored\<close>), one of its four alerts, or the session it logged. The alerts are
  "Authentication error: Please login again" (\<open>EntryNotAuthenticated\<close>), "This vehicle
  is already entered in the parking area." (\<open>DuplicateActiveSession\<close>), "MEMBERSHIP
  EXPIRED: This vehicle cannot enter until the monthly pass is recharged."
  (\<open>MembershipExpired\<close>) and "System Error: Failed to log entry" (\<open>EntryNotLogged\<close>).
\<close>

datatype EntryOutcome =
    EntryIgnored
  | EntryNotAuthenticated
  | DuplicateActiveSession
  | MembershipExpired
  | EntryNotLogged
  | Entered ParkingSession

text \<open>
  \<open>handleEntry\<close> run alone, as one step on the state: its decision and the state it
  leaves. \<open>logEntry\<close> is its second half, from the construction of \<open>newSession\<close> on;
  \<open>free\<close> is \<open>existingPass ? true : isFree\<close>.
\<close>

definition logEntry :: "int \<Rightarrow> string \<Rightarrow> bool \<Rightarrow> bool \<Rightarrow> AppState \<Rightarrow> EntryOutcome \<times> AppState" where
  "logEntry now newId insertError free st =
     (let created = newSession newId (formVehicleNumber st) (formVehicleType st) now free
            (case formProofImage st of None \<Rightarrow> None | Some img \<Rightarrow> if img = [] then None else Some img)
      in if insertError then (EntryNotLogged, st)
         else (Entered created,
               st\<lparr>sessions := created # sessions st, currentBill := Some created,
                  formVehicleNumber := [], formIsFree := False, formProofImage := None\<rparr>))"

definition handleEntry :: "int option \<Rightarrow> int \<Rightarrow> string \<Rightarrow> bool \<Rightarrow> AppState \<Rightarrow> EntryOutcome \<times> AppState" where
  "handleEntry userId now newId insertError st =
     (if formVehicleNumber st = [] then (EntryIgnored, st)
      else if notLoggedIn userId then (EntryNotAuthenticated, st)
      else if find (\<lambda>s. vehicleNumber s = formVehicleNumber st \<and> status s = active) (sessions st) \<noteq> None
      then (DuplicateActiveSession, st)
      else
        (case find (\<lambda>p. passVehicleNumber p = formVehicleNumber st) (passes st) of
           Some existingPass \<Rightarrow>
             if isBefore (expiryDate existingPass) now then (MembershipExpired, st)
             else logEntry now newId insertError True (st\<lparr>formIsFree := True\<rparr>)
         | None \<Rightarrow> logEntry now newId insertError (formIsFree st) st))"



text \<open>
  The handlers are asynchronous closures. A handler belongs to the render that created
  it and reads the state of that render, its snapshot (\<open>sessions\<close>, \<open>passes\<close>, the form
  and the settings); it awaits the database call; then it writes to the state, with
  values computed from the snapshot. Nothing disables the buttons in between, so other
  handlers can start from the same snapshot or complete before the write. The snapshot
  and the world that receives the effects are therefore separate arguments of the
  handlers below. The world is the component state together with the rows of the user
  in the table \<open>parking_sessions\<close>. A handler that runs alone has the state of the world as
  its snapshot.
\<close>

record World =
  dbSessions :: "ParkingSession list"
  app :: AppState



text \<open>
  \<open>handleEntry\<close> (lines 228 to 289) with its snapshot apart. \<open>insertEntry\<close> is its second
  half, from the construction of \<open>newSession\<close> on: the row is inserted in the database and
  the state receives the new session in front of the snapshot's list.
\<close>

definition insertEntry :: "AppState \<Rightarrow> int \<Rightarrow> string \<Rightarrow> bool \<Rightarrow> bool \<Rightarrow> World \<Rightarrow> EntryOutcome \<times> World" where
  "insertEntry snap now newId insertError free w =
     (let created = newSession newId (formVehicleNumber snap) (formVehicleType snap) now free
            (case formProofImage snap of None \<Rightarrow> None | Some img \<Rightarrow> if img = [] then None else Some img)
      in if insertError then (EntryNotLogged, w)
         else (Entered created,
               w\<lparr>dbSessions := created # dbSessions w,
                 app := (app w)\<lparr>sessions := created # sessions snap, currentBill := Some created,
                                formVehicleNumber := [], formIsFree := False,
                                formProofImage := None\<rparr>\<rparr>))"

definition handleEntryFrom :: "AppState \<Rightarrow> int option \<Rightarrow> int \<Rightarrow> string \<Rightarrow> bool \<Rightarrow> World \<Rightarrow> EntryOutcome \<times> World" where
  "handleEntryFrom snap userId now newId insertError w =
     (if formVehicleNumber snap = [] then (EntryIgnored, w)
      else if notLoggedIn userId then (EntryNotAuthenticated, w)
      else if find (\<lambda>s. vehicleNumber s = formVehicleNumber snap \<and> status s = active) (sessions snap) \<noteq> None
      then (DuplicateActiveSession, w)
      else
        (case find (\<lambda>p. passVehicleNumber p = formVehicleNumber snap) (passes snap) of
           Some existingPass \<Rightarrow>
             if isBefore (expiryDate existingPass) now then (MembershipExpired, w)
             else insertEntry snap now newId insertError True
                    (w\<lparr>app := (app w)\<lparr>formIsFree := True\<rparr>\<rparr>)
         | None \<Rightarrow> insertEntry snap now newId insertError (formIsFree snap) w))"

text \<open>The invariant of the session list: no two active sessions of one vehicle number.\<close>

definition oneActivePerVehicle :: "ParkingSession list \<Rightarrow> bool" where
  "oneActivePerVehicle ss = distinct (map vehicleNumber (filter (\<lambda>s. status s = active) ss))"

text \<open>An empty component with the default settings, and a pass, for the examples.\<close>

definition initialState :: AppState where
  "initialState =
     \<lparr>sessions = [], passes = [], graceTimeMinutes = defaultGraceTimeMinutes,
      pricingRules = defaultPricingRules, formVehicleNumber = [], formVehicleType = car,
      formIsFree = False, formProofImage = None, exitId = [], currentBill = None,
      showScanner = False\<rparr>"

definition examplePass :: "int \<Rightarrow> MembershipPass" where
  "examplePass expiry =
     \<lparr>passId = ''MS-1F2E'', passVehicleNumber = ''TN 18 AV 4064'', passVehicleType = car,
      holderName = ''Asha'', expiryDate = expiry\<rparr>"



text \<open>Nothing parked, and the plate typed into the entry form.\<close>

definition arrivingWorld :: World where
  "arrivingWorld =
     \<lparr>dbSessions = [], app = initialState\<lparr>formVehicleNumber := ''TN 18 AV 4064''\<rparr>\<rparr>"

section \<open>Membership renewal: \<open>rechargePass\<close>\<close>

text \<open>
  \<open>addMonths\<close> of date-fns works on the calendar fields of the JavaScript \<open>Date\<close>:
  \<open>getDate\<close>, \<open>getMonth\<close> and \<open>getFullYear\<close> read them, and \<open>setMonth\<close> and
  \<open>setFullYear\<close> write them, in the time zone of the host. A time value is a number of
  milliseconds since the epoch, in UTC; the day number of a local time is its
  milliseconds divided by 86400000 (rounded down), and the civil date of a day number is
  found by the usual decomposition into 400-year eras, centuries, four-year groups and
  years that begin on the first of March. Time values are those of valid dates.
\<close>

definition msPerDay :: int where
  "msPerDay = 86400000"

text \<open>Year, month (1 to 12) and day of the month (1 to 31) of a day number.\<close>

definition civilFromDays :: "int \<Rightarrow> int \<times> int \<times> int" where
  "civilFromDays z =
     (let shifted = z + 719468;
          era = shifted div 146097;
          doe = shifted mod 146097;
          cent = min 3 (doe div 36524);
          doc = doe - cent * 36524;
          quad = doc div 1461;
          doq = doc - quad * 1461;
          yr = min 3 (doq div 365);
          doy = doq - yr * 365;
          mp = (5 * doy + 2) div 153;
          d = doy - (153 * mp + 2) div 5 + 1;
          m = (if mp < 10 then mp + 3 else mp - 9);
          y = era * 400 + cent * 100 + quad * 4 + yr + (if m \<le> 2 then 1 else 0)
      in (y, m, d))"

text \<open>The days from the first of March of the year 0 to the first of March of a year.\<close>

definition daysBeforeMarchYear :: "int \<Rightarrow> int" where
  "daysBeforeMarchYear y =
     (let era = y div 400;
          yoe = y mod 400
      in era * 146097 + yoe * 365 + yoe div 4 - yoe div 100)"

text \<open>The day number of a civil date; the day of the month may lie outside the month.\<close>

definition daysFromCivil :: "int \<Rightarrow> int \<Rightarrow> int \<Rightarrow> int" where
  "daysFromCivil y m d =
     (let marchYear = (if m \<le> 2 then y - 1 else y);
          mp = (if m > 2 then m - 3 else m + 9);
          doy = (153 * mp + 2) div 5 + d - 1
      in daysBeforeMarchYear marchYear + doy - 719468)"

text \<open>
  \<open>MakeDay(year, month, date)\<close> of ECMAScript, which \<open>setMonth\<close> and \<open>setFullYear\<close>
  use: the month is an index from 0 that may overflow into the following years.
\<close>

definition makeDay :: "int \<Rightarrow> int \<Rightarrow> int \<Rightarrow> int" where
  "makeDay year monthIndex date =
     daysFromCivil (year + monthIndex div 12) (monthIndex mod 12 + 1) 1 + date - 1"

text \<open>
  The time zone of the host, as ECMAScript sees it: \<open>utcOffset t\<close> is the offset of local
  time from UTC, in milliseconds, at the instant \<open>t\<close> (\<open>LocalTZA(t, true)\<close>), and
  \<open>localOffset t\<close> is the offset by which the local time \<open>t\<close> is read
  (\<open>LocalTZA(t, false)\<close>): where the clocks are set forward and \<open>t\<close> is skipped it is the
  offset before the change, where they are set back and \<open>t\<close> comes twice it is the offset
  of the first of the two.
\<close>

record TimeZone =
  utcOffset :: "int \<Rightarrow> int"
  localOffset :: "int \<Rightarrow> int"

text \<open>\<open>LocalTime(t)\<close> and \<open>UTC(t)\<close> of ECMAScript.\<close>

definition localTime :: "TimeZone \<Rightarrow> int \<Rightarrow> int" where
  "localTime z t = t + utcOffset z t"

definition utcTime :: "TimeZone \<Rightarrow> int \<Rightarrow> int" where
  "utcTime z t = t - localOffset z t"

text \<open>
  \<open>addMonths(date, amount)\<close>. \<open>endOfDesiredMonth\<close> is a copy of the date on which
  \<open>setMonth(month + amount + 1, 0)\<close> is called: day 0 of the month after the desired one,
  at the local time of day of the date. If the day of the month of the date is not
  before the day of the month that \<open>endOfDesiredMonth\<close> then shows, that is the result;
  otherwise \<open>setFullYear\<close> puts the date into the year and month of \<open>endOfDesiredMonth\<close>
  and keeps its day of the month and its local time of day.
\<close>

definition addMonths :: "TimeZone \<Rightarrow> int \<Rightarrow> int \<Rightarrow> int" where
  "addMonths z date months =
     (if months = 0 then date
      else
        let t = localTime z date;
            timeOfDay = t mod msPerDay;
            (year, month, dayOfMonth) = civilFromDays (t div msPerDay);
            endOfDesiredMonth =
              utcTime z (makeDay year (month - 1 + months + 1) 0 * msPerDay + timeOfDay);
            (endYear, endMonth, daysInMonth) =
              civilFromDays (localTime z endOfDesiredMonth div msPerDay)
        in if dayOfMonth \<ge> daysInMonth then endOfDesiredMonth
           else utcTime z (makeDay endYear (endMonth - 1) dayOfMonth * msPerDay + timeOfDay))"

text \<open>
  Three hosts: one on UTC; one on India Standard Time, five and a half hours ahead all
  year; and one in New York around 12 March 2023, when at 7:00 UTC the clocks went from
  2:00 (five hours behind UTC) to 3:00 (four hours behind).
\<close>

definition utcZone :: TimeZone where
  "utcZone = \<lparr>utcOffset = (\<lambda>t. 0), localOffset = (\<lambda>t. 0)\<rparr>"

definition kolkataZone :: TimeZone where
  "kolkataZone = \<lparr>utcOffset = (\<lambda>t. 19800000), localOffset = (\<lambda>t. 19800000)\<rparr>"

definition newYorkZone :: TimeZone where
  "newYorkZone =
     \<lparr>utcOffset = (\<lambda>t. if t < 1678604400000 then - 18000000 else - 14400000),
      localOffset = (\<lambda>t. if t < 1678590000000 then - 18000000 else - 14400000)\<rparr>"

text \<open>
  What a call of \<open>rechargePass\<close> ends with: the silent return for an unknown pass id, one
  of its two alerts, or the new expiry date.
\<close>

datatype RechargeOutcome =
    RechargeIgnored
  | RechargeNotAuthenticated
  | RechargeFailed
  | Recharged int

text \<open>
  Lines 337 to 339: the base date and the new expiry. The two readings of the clock in
  line 338 are taken to be the same instant \<open>now\<close>.
\<close>

definition newExpiry :: "TimeZone \<Rightarrow> MembershipPass \<Rightarrow> int \<Rightarrow> int" where
  "newExpiry z pass now =
     (let currentExpiry = expiryDate pass;
          baseDate = (if isAfter currentExpiry now then currentExpiry else now)
      in addMonths z baseDate 1)"

text \<open>
  \<open>rechargePass\<close> is asynchronous as well: the pass is looked up in the passes of the
  render in which the button was pressed (\<open>snap\<close>), the update of the row is awaited, and
  the passes of that render, with the new expiry on the pass, are stored in the state
  the component has by then (\<open>st\<close>).
\<close>

definition rechargePass :: "TimeZone \<Rightarrow> AppState \<Rightarrow> int option \<Rightarrow> int \<Rightarrow> bool \<Rightarrow> string \<Rightarrow> AppState \<Rightarrow> RechargeOutcome \<times> AppState" where
  "rechargePass z snap userId now updateError pid st =
     (case find (\<lambda>p. passId p = pid) (passes snap) of
        None \<Rightarrow> (RechargeIgnored, st)
      | Some pass \<Rightarrow>
          if notLoggedIn userId then (RechargeNotAuthenticated, st)
          else if updateError then (RechargeFailed, st)
          else (Recharged (newExpiry z pass now),
                st\<lparr>passes := map (\<lambda>p. if passId p = pid
                                      then p\<lparr>expiryDate := newExpiry z pass now\<rparr> else p)
                                (passes snap)\<rparr>))"

section \<open>The tariff rule in the words of the specification\<close>

text \<open>
  The specification's reading of the tier rule, for comparison with \<open>calculateBill\<close>:
  the billed hours are the minutes divided by 60 and rounded up; the selected tier is the
  one with the largest threshold not above the billed hours (the first such tier of the
  table when several share that threshold); without a qualifying tier the fee is the
  billed hours times the amount of the one-hour tier, or times 50 when the table has no
  one-hour tier.
\<close>

definition spec_selectedTier :: "int \<Rightarrow> PricingRule list \<Rightarrow> PricingRule option" where
  "spec_selectedTier billedHours tiers =
     (let qualifying = filter (\<lambda>r. hours r \<le> billedHours) tiers
      in if qualifying = [] then None
         else find (\<lambda>r. hours r = Max (set (map hours qualifying))) qualifying)"

definition spec_billedHours :: "int \<Rightarrow> int" where
  "spec_billedHours billedMinutes = \<lceil>real_of_int billedMinutes / 60\<rceil>"

definition spec_hourlyRate :: "PricingRule list \<Rightarrow> int" where
  "spec_hourlyRate tiers =
     (case find (\<lambda>r. hours r = 1) tiers of Some r \<Rightarrow> amount r | None \<Rightarrow> 50)"

definition spec_fee :: "int \<Rightarrow> PricingRule list \<Rightarrow> int" where
  "spec_fee billedMinutes tiers =
     (case spec_selectedTier (spec_billedHours billedMinutes) tiers of
        Some tier \<Rightarrow> amount tier
      | None \<Rightarrow> spec_billedHours billedMinutes * spec_hourlyRate tiers)"

definition carTiers :: "PricingRule list" where
  "carTiers = [\<lparr>hours = 1, amount = 50\<rparr>, \<lparr>hours = 12, amount = 500\<rparr>, \<lparr>hours = 24, amount = 900\<rparr>]"

section \<open>Vehicle number normalisation: \<open>formatVehicleNumber\<close>\<close>

text \<open>
  A JavaScript string is a sequence of UTF-16 code units, here a list of numbers below
  65536, and \<open>length\<close>, \<open>substring\<close> and the regular expression count in code units.
  \<open>\s\<close> matches the white space and line terminator code points of ECMAScript: tab,
  line feed, vertical tab, form feed, carriage return, space, the no-break space, the
  other space separators of Unicode, the line and paragraph separators and the byte
  order mark.
\<close>

type_synonym jsString = "nat list"

definition isWhitespace :: "nat \<Rightarrow> bool" where
  "isWhitespace c =
     ((9 \<le> c \<and> c \<le> 13) \<or> c = 32 \<or> c = 160 \<or> c = 5760 \<or> (8192 \<le> c \<and> c \<le> 8202)
      \<or> c = 8232 \<or> c = 8233 \<or> c = 8239 \<or> c = 8287 \<or> c = 12288 \<or> c = 65279)"

text \<open>\<open>s.substring(a, b)\<close> for \<open>a \<le> b\<close>: the indices are clamped to the length.\<close>

definition substring :: "jsString \<Rightarrow> nat \<Rightarrow> nat \<Rightarrow> jsString" where
  "substring s a b = take (b - a) (drop a s)"

text \<open>\<open>parts.join(sep)\<close>.\<close>

fun joinWith :: "jsString \<Rightarrow> jsString list \<Rightarrow> jsString" where
  "joinWith sep [] = []"
| "joinWith sep [p] = p"
| "joinWith sep (p # q # ps) = p @ sep @ joinWith sep (q # ps)"

text \<open>
  \<open>String.prototype.toUpperCase\<close> is a built-in of the host, defined by the case
  mappings of the Unicode character database: it is the first argument of the model of
  \<open>formatVehicleNumber\<close>, whose own steps follow lines 122 to 128.
\<close>

definition formatVehicleNumber :: "(jsString \<Rightarrow> jsString) \<Rightarrow> jsString \<Rightarrow> jsString" where
  "formatVehicleNumber toUpperCase val =
     (let clean = toUpperCase (filter (\<lambda>c. \<not> isWhitespace c) val);
          parts = (if length clean > 0 then [substring clean 0 2] else [])
                @ (if length clean > 2 then [substring clean 2 4] else [])
                @ (if length clean > 4 then [substring clean 4 6] else [])
                @ (if length clean > 6 then [substring clean 6 10] else [])
      in joinWith [32] parts)"

text \<open>The two locals of \<open>formatVehicleNumber\<close>, named for the proofs.\<close>

definition cleanOf :: "(jsString \<Rightarrow> jsString) \<Rightarrow> jsString \<Rightarrow> jsString" where
  "cleanOf toUpperCase val = toUpperCase (filter (\<lambda>c. \<not> isWhitespace c) val)"

definition groupsOf :: "jsString \<Rightarrow> jsString list" where
  "groupsOf clean = (if length clean > 0 then [substring clean 0 2] else [])
                @ (if length clean > 2 then [substring clean 2 4] else [])
                @ (if length clean > 4 then [substring clean 4 6] else [])
                @ (if length clean > 6 then [substring clean 6 10] else [])"

text \<open>
  The grouping 2-2-2-4 in words: the pieces of two, two, two and four code units of a
  plate, those that are not empty.
\<close>

definition spec_groups :: "jsString \<Rightarrow> jsString list" where
  "spec_groups plate =
     filter (\<lambda>g. g \<noteq> [])
       [take 2 plate, take 2 (drop 2 plate), take 2 (drop 4 plate), take 4 (drop 6 plate)]"

text \<open>
  \<open>toUpperCase\<close> on the strings whose code units are all below 256 (Latin-1), where it
  works code unit by code unit: the letters \<open>a\<close> to \<open>z\<close> and those from 224 to 254 other
  than the division sign move down by 32, the sharp s (223) becomes \<open>SS\<close>, the y with
  diaeresis (255) and the micro sign (181) get their capitals outside Latin-1 (376 and
  924), and every other code unit stays.
\<close>

definition latin1Upper :: "nat \<Rightarrow> jsString" where
  "latin1Upper c =
     (if (97 \<le> c \<and> c \<le> 122) \<or> (224 \<le> c \<and> c \<le> 254 \<and> c \<noteq> 247) then [c - 32]
      else if c = 223 then [83, 83]
      else if c = 255 then [376]
      else if c = 181 then [924]
      else [c])"

definition latin1UpperCase :: "jsString \<Rightarrow> jsString" where
  "latin1UpperCase s = concat (map latin1Upper s)"

text \<open>The code units of a string of ASCII characters.\<close>

definition codeUnits :: "string \<Rightarrow> jsString" where
  "codeUnits s = map of_char s"

section \<open>Verification of the pricing engine\<close>

subsection \<open>The stable descending sort and the first qualifying rule\<close>

lemma find_filter_hd:
  "find P xs = (case filter P xs of [] \<Rightarrow> None | x # _ \<Rightarrow> Some x)"
  by (induction xs) auto

lemma hd_insort_key:
  "hd (insort_key f x ys) = (if ys = [] \<or> f x \<le> f (hd ys) then x else hd ys)"
  by (cases ys) auto

lemma sort_key_Nil_iff: "(sort_key f xs = []) = (xs = [])"
  by (metis length_sort length_0_conv)

lemma Min_uminus_image:
  fixes S :: "'a set" and g :: "'a \<Rightarrow> int"
  assumes "finite S" "S \<noteq> {}"
  shows "Min ((\<lambda>r. - g r) ` S) = - Max (g ` S)"
proof -
  have fin: "finite (g ` S)" "g ` S \<noteq> {}" using assms by auto
  show ?thesis
  proof (rule Min_eqI)
    show "finite ((\<lambda>r. - g r) ` S)" using assms by simp
    show "\<And>y. y \<in> (\<lambda>r. - g r) ` S \<Longrightarrow> - Max (g ` S) \<le> y"
      using fin by auto
    show "- Max (g ` S) \<in> (\<lambda>r. - g r) ` S"
      using Max_in [OF fin] by auto
  qed
qed

lemma find_min_hd_sort_key:
  "xs \<noteq> [] \<Longrightarrow> find (\<lambda>y. f y = Min (f ` set xs)) xs = Some (hd (sort_key f xs))"
proof (induction xs)
  case Nil
  then show ?case by simp
next
  case (Cons x xs)
  show ?case
  proof (cases "xs = []")
    case True
    then show ?thesis by simp
  next
    case False
    from Cons.IH [OF False] have ih: "find (\<lambda>y. f y = Min (f ` set xs)) xs = Some (hd (sort_key f xs))" .
    have hdin: "hd (sort_key f xs) \<in> set xs \<and> f (hd (sort_key f xs)) = Min (f ` set xs)"
      using ih by (auto simp: find_Some_iff)
    have ne: "sort_key f xs \<noteq> []" using False by (simp add: sort_key_Nil_iff)
    have m: "Min (f ` set (x # xs)) = min (f x) (Min (f ` set xs))"
      using False by simp
    show ?thesis
    proof (cases "f x \<le> Min (f ` set xs)")
      case True
      then show ?thesis using ne hdin m by (simp add: hd_insort_key min_def)
    next
      case False
      then show ?thesis using ne hdin m ih by (auto simp: hd_insort_key min_def)
    qed
  qed
qed

lemma find_sortedRules:
  "find (\<lambda>rule. hours rule \<le> H) (sortedRules rs) = spec_selectedTier H rs"
proof (cases "filter (\<lambda>r. hours r \<le> H) rs = []")
  case True
  then show ?thesis
    unfolding sortedRules_def spec_selectedTier_def
    by (subst find_filter_hd) (simp add: filter_sort)
next
  case False
  let ?q = "filter (\<lambda>r. hours r \<le> H) rs"
  have ne: "sort_key (\<lambda>r. - hours r) ?q \<noteq> []" using False by (simp add: sort_key_Nil_iff)
  have "find (\<lambda>rule. hours rule \<le> H) (sortedRules rs) = Some (hd (sort_key (\<lambda>r. - hours r) ?q))"
    unfolding sortedRules_def using ne
    by (subst find_filter_hd) (simp add: filter_sort split: list.splits)
  also have "\<dots> = find (\<lambda>y. - hours y = Min ((\<lambda>r. - hours r) ` set ?q)) ?q"
    using find_min_hd_sort_key [OF False, of "\<lambda>r. - hours r"] by simp
  also have "\<dots> = find (\<lambda>y. hours y = Max (set (map hours ?q))) ?q"
  proof -
    have "set ?q \<noteq> {}" using False by (metis set_empty)
    then have "Min ((\<lambda>r. - hours r) ` set ?q) = - Max (hours ` set ?q)"
      by (rule Min_uminus_image [OF finite_set])
    then show ?thesis by (simp only: list.set_map neg_equal_iff_equal)
  qed
  finally show ?thesis using False by (simp add: spec_selectedTier_def)
qed

lemma ceilHours_ceiling: "ceilHours m = spec_billedHours m"
  unfolding ceilHours_def spec_billedHours_def by linarith

lemma ceilHours_pos: "0 < m \<Longrightarrow> 1 \<le> ceilHours m"
  unfolding ceilHours_def by linarith

lemma differenceInMinutes_elapsed:
  "r \<le> l \<Longrightarrow> 0 \<le> differenceInMinutes l r \<and> 60000 * differenceInMinutes l r \<le> l - r
     \<and> l - r < 60000 * (differenceInMinutes l r + 1)"
  unfolding differenceInMinutes_def Let_def by (simp add: ) linarith

lemma differenceInMinutes_negative:
  "l < r \<Longrightarrow> differenceInMinutes l r \<le> 0 \<and> differenceInMinutes l r = - differenceInMinutes r l"
  unfolding differenceInMinutes_def Let_def by simp

lemma fallback_rate:
  assumes "find (\<lambda>rule. hours rule \<le> H) (sortedRules tiers) = None"
    and "1 \<le> H \<or> (\<forall>r \<in> set tiers. hours r = 1 \<longrightarrow> amount r \<noteq> 0)"
  shows "baseHourRate tiers = spec_hourlyRate tiers"
proof (cases "find (\<lambda>r. hours r = 1) tiers")
  case None
  then show ?thesis by (simp add: baseHourRate_def spec_hourlyRate_def)
next
  case (Some r)
  then have r: "r \<in> set tiers" "hours r = 1"
    by (auto simp: find_Some_iff)
  have "\<forall>r \<in> set tiers. \<not> hours r \<le> H"
    using assms(1) by (simp add: find_None_iff sortedRules_def)
  then have "\<not> 1 \<le> H" using r by auto
  then have "amount r \<noteq> 0" using assms(2) r by blast
  then show ?thesis using Some by (simp add: baseHourRate_def spec_hourlyRate_def)
qed

lemma no_tier_no_hour_tier:
  assumes "find (\<lambda>rule. hours rule \<le> H) (sortedRules tiers) = None" and "1 \<le> H"
  shows "find (\<lambda>r. hours r = 1) tiers = None"
proof -
  have "\<forall>r \<in> set tiers. \<not> hours r \<le> H"
    using assms(1) by (simp add: find_None_iff sortedRules_def)
  then show ?thesis using assms(2) by (auto simp: find_None_iff)
qed

text \<open>
  Claim C1. For a session that is not exempt and whose elapsed minutes exceed the grace
  time, \<open>calculateBill\<close> reads the tiers of the session's category and charges the fee of
  the specification's tier rule on them: hours rounded up, the flat amount of the tier
  with the largest threshold not above them, and, when no tier qualifies, hours times the
  amount of the one-hour tier, or times 50 without one. The statement holds for every
  non-negative grace time, as the specification's settings have it; for a negative grace
  time, where the hours can be below 1 with a one-hour tier in the table, it holds when
  no one-hour tier has the amount 0 (which the source reads as a missing amount). Under
  a non-negative grace time a fallback always finds the table without a one-hour tier
  and charges hours times 50. With the tiers 1h:50, 12h:500, 24h:900 and exactly 720
  elapsed minutes the billed hours are 12 and the 12h tier's 500 is charged. Hours and
  amounts of the table are whole numbers in this model.
\<close>

theorem calculateBill_tier_selection:
  assumes "isFree s \<noteq> Some True"
    and "grace < differenceInMinutes exitT (entryTime s)"
    and "rules (vehicleType s) = Some tiers"
    and "0 \<le> grace \<or> (\<forall>r \<in> set tiers. hours r = 1 \<longrightarrow> amount r \<noteq> 0)"
  shows "calculateBill grace rules s exitT =
           \<lparr>billAmount = spec_fee (differenceInMinutes exitT (entryTime s)) tiers,
            billMinutes = differenceInMinutes exitT (entryTime s)\<rparr>
         \<and> (0 \<le> grace
              \<and> spec_selectedTier (spec_billedHours (differenceInMinutes exitT (entryTime s))) tiers = None
              \<longrightarrow> find (\<lambda>r. hours r = 1) tiers = None
                \<and> billAmount (calculateBill grace rules s exitT)
                    = spec_billedHours (differenceInMinutes exitT (entryTime s)) * 50)
         \<and> (differenceInMinutes exitT (entryTime s) = 720 \<and> tiers = carTiers
              \<longrightarrow> spec_billedHours 720 = 12
                \<and> spec_selectedTier 12 carTiers = Some \<lparr>hours = 12, amount = 500\<rparr>
                \<and> billAmount (calculateBill grace rules s exitT) = 500)"
proof -
  let ?m = "differenceInMinutes exitT (entryTime s)"
  have ts: "rulesFor rules (vehicleType s) = tiers"
    using assms(3) by (simp add: rulesFor_def)
  have H: "0 \<le> grace \<Longrightarrow> 1 \<le> ceilHours ?m"
    using assms(2) by (intro ceilHours_pos) linarith
  have sel: "find (\<lambda>rule. hours rule \<le> ceilHours ?m) (sortedRules tiers) = spec_selectedTier (ceilHours ?m) tiers"
    by (rule find_sortedRules)
  have cond: "1 \<le> ceilHours ?m \<or> (\<forall>r \<in> set tiers. hours r = 1 \<longrightarrow> amount r \<noteq> 0)"
    using assms(4) H by blast
  have main: "calculateBill grace rules s exitT = \<lparr>billAmount = spec_fee ?m tiers, billMinutes = ?m\<rparr>"
  proof (cases "spec_selectedTier (ceilHours ?m) tiers")
    case None
    then have "find (\<lambda>rule. hours rule \<le> ceilHours ?m) (sortedRules tiers) = None"
      using sel by simp
    from fallback_rate [OF this cond] None show ?thesis
      using assms(1,2) sel ts
      by (simp add: calculateBill_def Let_def spec_fee_def ceilHours_ceiling [symmetric])
  next
    case (Some r)
    then show ?thesis
      using assms(1,2) sel ts
      by (simp add: calculateBill_def Let_def spec_fee_def ceilHours_ceiling [symmetric])
  qed
  have fb: "0 \<le> grace \<and> spec_selectedTier (spec_billedHours ?m) tiers = None
              \<longrightarrow> find (\<lambda>r. hours r = 1) tiers = None
                \<and> billAmount (calculateBill grace rules s exitT) = spec_billedHours ?m * 50"
  proof
    assume a: "0 \<le> grace \<and> spec_selectedTier (spec_billedHours ?m) tiers = None"
    then have n: "find (\<lambda>rule. hours rule \<le> ceilHours ?m) (sortedRules tiers) = None"
      using sel by (simp add: ceilHours_ceiling)
    have one: "find (\<lambda>r. hours r = 1) tiers = None"
      using no_tier_no_hour_tier [OF n] H a by blast
    then show "find (\<lambda>r. hours r = 1) tiers = None
                \<and> billAmount (calculateBill grace rules s exitT) = spec_billedHours ?m * 50"
      using a main by (simp add: spec_fee_def spec_hourlyRate_def)
  qed
  have h12: "spec_billedHours 720 = 12" by (simp add: spec_billedHours_def)
  have t12: "spec_selectedTier 12 carTiers = Some \<lparr>hours = 12, amount = 500\<rparr>"
    by (simp add: spec_selectedTier_def carTiers_def)
  have ex: "?m = 720 \<and> tiers = carTiers
              \<longrightarrow> spec_billedHours 720 = 12
                \<and> spec_selectedTier 12 carTiers = Some \<lparr>hours = 12, amount = 500\<rparr>
                \<and> billAmount (calculateBill grace rules s exitT) = 500"
    using main h12 t12 by (auto simp: spec_fee_def)
  from main fb ex show ?thesis by blast
qed

text \<open>
  A bike after 90 minutes pays its own one-hour tier, 20, and a car after 720 minutes
  the 12h tier. A truck whose table has lost its one-hour tier falls back to 2 hours
  times 50 after 90 minutes. Under a grace time of -200 a bike whose exit is 90 minutes
  before its entry has -1 billed hours, no qualifying tier, and the fallback reads its
  one-hour tier: -1 times 20.
\<close>

theorem calculateBill_tier_selection_witness:
  "calculateBill 15 defaultPricingRules (newSession ''PK-A1B2C3'' ''TN 18 AV 4064'' bike 1000 False None) 5401000
     = \<lparr>billAmount = 20, billMinutes = 90\<rparr>
   \<and> calculateBill 15 defaultPricingRules (newSession ''PK-A1B2C3'' ''TN 18 AV 4064'' car 1000 False None) 43201000
     = \<lparr>billAmount = 500, billMinutes = 720\<rparr>
   \<and> calculateBill 15
        (defaultPricingRules(truck := Some [\<lparr>hours = 12, amount = 1000\<rparr>, \<lparr>hours = 24, amount = 1800\<rparr>]))
        (newSession ''PK-A1B2C3'' ''TN 18 AV 4064'' truck 1000 False None) 5401000
     = \<lparr>billAmount = 100, billMinutes = 90\<rparr>
   \<and> calculateBill (- 200) defaultPricingRules
        (newSession ''PK-A1B2C3'' ''TN 18 AV 4064'' bike 5400000 False None) 0
     = \<lparr>billAmount = - 20, billMinutes = - 90\<rparr>"
proof -
  let ?bike = "[\<lparr>hours = 1, amount = 20\<rparr>, \<lparr>hours = 12, amount = 150\<rparr>, \<lparr>hours = 24, amount = 250\<rparr>]"
  let ?truck = "[\<lparr>hours = 12, amount = 1000\<rparr>, \<lparr>hours = 24, amount = 1800\<rparr>]"
  let ?b = "newSession ''PK-A1B2C3'' ''TN 18 AV 4064'' bike 1000 False None"
  let ?c = "newSession ''PK-A1B2C3'' ''TN 18 AV 4064'' car 1000 False None"
  let ?t = "newSession ''PK-A1B2C3'' ''TN 18 AV 4064'' truck 1000 False None"
  let ?n = "newSession ''PK-A1B2C3'' ''TN 18 AV 4064'' bike 5400000 False None"
  have fb: "isFree ?b \<noteq> Some True" and fc: "isFree ?c \<noteq> Some True"
    and ft: "isFree ?t \<noteq> Some True" and fn: "isFree ?n \<noteq> Some True"
    by (simp_all add: newSession_def)
  have db: "differenceInMinutes 5401000 (entryTime ?b) = 90"
    and dc: "differenceInMinutes 43201000 (entryTime ?c) = 720"
    and dt: "differenceInMinutes 5401000 (entryTime ?t) = 90"
    and dn: "differenceInMinutes 0 (entryTime ?n) = - 90"
    by (simp_all add: newSession_def differenceInMinutes_def)
  have rb: "defaultPricingRules (vehicleType ?b) = Some ?bike"
    and rc: "defaultPricingRules (vehicleType ?c) = Some carTiers"
    and rt: "(defaultPricingRules(truck := Some ?truck)) (vehicleType ?t) = Some ?truck"
    and rn: "defaultPricingRules (vehicleType ?n) = Some ?bike"
    by (simp_all add: newSession_def defaultPricingRules_def carTiers_def)
  have g: "(0::int) \<le> 15 \<or> (\<forall>r \<in> set tiers. hours r = 1 \<longrightarrow> amount r \<noteq> 0)" for tiers :: "PricingRule list"
    by simp
  have gn: "(0::int) \<le> - 200 \<or> (\<forall>r \<in> set ?bike. hours r = 1 \<longrightarrow> amount r \<noteq> 0)"
    by simp
  have lb: "(15::int) < differenceInMinutes 5401000 (entryTime ?b)" by (simp add: db)
  have lc: "(15::int) < differenceInMinutes 43201000 (entryTime ?c)" by (simp add: dc)
  have lt: "(15::int) < differenceInMinutes 5401000 (entryTime ?t)" by (simp add: dt)
  have ln: "(- 200::int) < differenceInMinutes 0 (entryTime ?n)" by (simp add: dn)
  have sb: "spec_fee 90 ?bike = 20"
    by (simp add: spec_fee_def spec_selectedTier_def spec_billedHours_def)
  have sc: "spec_fee 720 carTiers = 500"
    by (simp add: spec_fee_def spec_selectedTier_def spec_billedHours_def carTiers_def)
  have st: "spec_fee 90 ?truck = 100"
    by (simp add: spec_fee_def spec_selectedTier_def spec_billedHours_def spec_hourlyRate_def)
  have sn: "spec_fee (- 90) ?bike = - 20"
    by (simp add: spec_fee_def spec_selectedTier_def spec_billedHours_def spec_hourlyRate_def)
  have "calculateBill 15 defaultPricingRules ?b 5401000 = \<lparr>billAmount = 20, billMinutes = 90\<rparr>"
    using calculateBill_tier_selection [of ?b 15 5401000 defaultPricingRules ?bike, OF fb lb rb g] by (simp only: db sb)
  moreover
  have "calculateBill 15 defaultPricingRules ?c 43201000 = \<lparr>billAmount = 500, billMinutes = 720\<rparr>"
    using calculateBill_tier_selection [of ?c 15 43201000 defaultPricingRules carTiers, OF fc lc rc g] by (simp only: dc sc)
  moreover
  have "calculateBill 15 (defaultPricingRules(truck := Some ?truck)) ?t 5401000
          = \<lparr>billAmount = 100, billMinutes = 90\<rparr>"
    using calculateBill_tier_selection [of ?t 15 5401000 "defaultPricingRules(truck := Some ?truck)" ?truck, OF ft lt rt g] by (simp only: dt st)
  moreover
  have "calculateBill (- 200) defaultPricingRules ?n 0 = \<lparr>billAmount = - 20, billMinutes = - 90\<rparr>"
    using calculateBill_tier_selection [of ?n "- 200" 0 defaultPricingRules ?bike, OF fn ln rn gn] by (simp only: dn sn)
  ultimately show ?thesis by (simp only: simp_thms)
qed

text \<open>
  Claim C2 asks for a failure when the category has no tariff. The source has no such
  failure: a missing category reads as the empty list, the empty list has no one-hour
  rule, and the rate 50 is used. One hour of a car without any tariff costs 50.
\<close>

theorem calculateBill_unconfigured_counterexample:
  "calculateBill 15 (\<lambda>_. None) (newSession ''PK-A1B2C3'' ''TN 18 AV 4064'' car 0 False None) (60 * 60000)
     = \<lparr>billAmount = 50, billMinutes = 60\<rparr>
   \<and> calculateBill 15 (\<lambda>_. Some []) (newSession ''PK-A1B2C3'' ''TN 18 AV 4064'' car 0 False None) (90 * 60000)
     = \<lparr>billAmount = 100, billMinutes = 90\<rparr>"
  by (simp add: calculateBill_def newSession_def differenceInMinutes_def rulesFor_def
      sortedRules_def baseHourRate_def ceilHours_def)

text \<open>
  Claim C2, as the source has it. For a category that is missing from the tariff table or
  whose rule list is empty, \<open>calculateBill\<close> returns a bill: 0 for an exempt session or
  within the grace time, and otherwise the hours rounded up times 50.
\<close>

theorem calculateBill_unconfigured:
  assumes "rules (vehicleType s) = None \<or> rules (vehicleType s) = Some []"
  shows "calculateBill grace rules s exitT =
           \<lparr>billAmount =
              (if isFree s = Some True \<or> differenceInMinutes exitT (entryTime s) \<le> grace then 0
               else spec_billedHours (differenceInMinutes exitT (entryTime s)) * 50),
            billMinutes = differenceInMinutes exitT (entryTime s)\<rparr>"
proof -
  have "rulesFor rules (vehicleType s) = []"
    using assms by (auto simp: rulesFor_def)
  then show ?thesis
    by (simp add: calculateBill_def Let_def sortedRules_def baseHourRate_def ceilHours_ceiling)
qed

text \<open>A truck whose category was removed from the table, after 125 minutes.\<close>

theorem calculateBill_unconfigured_witness:
  "calculateBill 15 (defaultPricingRules(truck := None))
       (newSession ''PK-A1B2C3'' ''TN 18 AV 4064'' truck 0 False None) (125 * 60000)
     = \<lparr>billAmount = 150, billMinutes = 125\<rparr>"
proof -
  let ?s = "newSession ''PK-A1B2C3'' ''TN 18 AV 4064'' truck 0 False None"
  have a: "(defaultPricingRules(truck := None)) (vehicleType ?s) = None
           \<or> (defaultPricingRules(truck := None)) (vehicleType ?s) = Some []"
    by (simp add: newSession_def)
  show ?thesis
    using calculateBill_unconfigured [of "defaultPricingRules(truck := None)" ?s 15 "125 * 60000", OF a]
    by (simp add: newSession_def differenceInMinutes_def spec_billedHours_def)
qed

text \<open>
  Claim C5 asks for minutes clamped at 0 and for a failure when the exit precedes the
  entry. With the entry five minutes after the exit, \<open>calculateBill\<close> returns a bill
  whose minutes are \<open>-5\<close>.
\<close>

theorem calculateBill_interval_counterexample:
  "(0::int) < 300000
   \<and> calculateBill 15 defaultPricingRules (newSession ''PK-A1B2C3'' ''TN 18 AV 4064'' car 300000 False None) 0
       = \<lparr>billAmount = 0, billMinutes = - 5\<rparr>
   \<and> billMinutes (calculateBill 15 defaultPricingRules (newSession ''PK-A1B2C3'' ''TN 18 AV 4064'' car 300000 False None) 0)
       \<noteq> max 0 (differenceInMinutes 0 300000)"
  by (simp add: calculateBill_def newSession_def differenceInMinutes_def)

text \<open>
  Claim C5, as the source has it. The minutes of every bill are the signed difference of
  exit and entry in whole minutes, truncated toward zero. They equal the difference
  clamped at 0 whenever the exit is not before the entry; when it is, a bill is still
  returned and its minutes are that non-positive difference.
\<close>

theorem calculateBill_minutes:
  "billMinutes (calculateBill grace rules s exitT) = differenceInMinutes exitT (entryTime s)
   \<and> (entryTime s \<le> exitT \<longrightarrow>
          billMinutes (calculateBill grace rules s exitT)
            = max 0 (differenceInMinutes exitT (entryTime s)))
   \<and> (exitT < entryTime s \<longrightarrow>
          billMinutes (calculateBill grace rules s exitT) \<le> 0
          \<and> billMinutes (calculateBill grace rules s exitT)
              = - differenceInMinutes (entryTime s) exitT)"
proof -
  have m: "billMinutes (calculateBill grace rules s exitT) = differenceInMinutes exitT (entryTime s)"
    by (simp add: calculateBill_def Let_def split: option.splits)
  show ?thesis
    using m differenceInMinutes_elapsed [of "entryTime s" exitT]
      differenceInMinutes_negative [of exitT "entryTime s"]
    by (auto simp: max_def)
qed

text \<open>Truncation toward zero in both directions: 45 minutes and 59.999 seconds.\<close>

theorem calculateBill_minutes_witness:
  "billMinutes (calculateBill 15 defaultPricingRules
      (newSession ''PK-A1B2C3'' ''TN 18 AV 4064'' car 1000 False None) (1000 + 45 * 60000 + 59999)) = 45
   \<and> billMinutes (calculateBill 15 defaultPricingRules
      (newSession ''PK-A1B2C3'' ''TN 18 AV 4064'' car (45 * 60000 + 59999) False None) 0) = - 45"
  using calculateBill_minutes [of 15 defaultPricingRules
      "newSession ''PK-A1B2C3'' ''TN 18 AV 4064'' car 1000 False None" "1000 + 45 * 60000 + 59999"]
    calculateBill_minutes [of 15 defaultPricingRules
      "newSession ''PK-A1B2C3'' ''TN 18 AV 4064'' car (45 * 60000 + 59999) False None" 0]
  by (simp add: newSession_def differenceInMinutes_def)

text \<open>
  Claim C8. A session that is not exempt and whose elapsed minutes do not exceed the
  grace time (the boundary included) is charged 0.
\<close>

theorem calculateBill_grace:
  assumes "isFree s \<noteq> Some True"
    and "differenceInMinutes exitT (entryTime s) \<le> grace"
  shows "billAmount (calculateBill grace rules s exitT) = 0"
  using assms by (simp add: calculateBill_def Let_def)

text \<open>Exactly 15 minutes under a grace time of 15.\<close>

theorem calculateBill_grace_witness:
  "billAmount (calculateBill 15 defaultPricingRules
      (newSession ''PK-A1B2C3'' ''TN 18 AV 4064'' car 0 False None) (15 * 60000)) = 0
   \<and> differenceInMinutes (15 * 60000) 0 = 15"
proof -
  let ?s = "newSession ''PK-A1B2C3'' ''TN 18 AV 4064'' car 0 False None"
  have a: "isFree ?s \<noteq> Some True" by (simp add: newSession_def)
  have d: "differenceInMinutes (15 * 60000) (entryTime ?s) \<le> 15"
    by (simp add: newSession_def differenceInMinutes_def)
  show ?thesis
    using calculateBill_grace [OF a d, of defaultPricingRules]
    by (simp add: differenceInMinutes_def)
qed

text \<open>
  Claim C9. An exempt session is charged 0 whatever the elapsed time, and the minutes of
  its bill are the elapsed whole minutes between entry and exit.
\<close>

theorem calculateBill_exempt:
  assumes "isFree s = Some True"
  shows "calculateBill grace rules s exitT =
           \<lparr>billAmount = 0, billMinutes = differenceInMinutes exitT (entryTime s)\<rparr>
         \<and> (entryTime s \<le> exitT \<longrightarrow>
               60000 * billMinutes (calculateBill grace rules s exitT) \<le> exitT - entryTime s
               \<and> exitT - entryTime s < 60000 * (billMinutes (calculateBill grace rules s exitT) + 1))"
  using assms differenceInMinutes_elapsed [of "entryTime s" exitT]
  by (simp add: calculateBill_def)

text \<open>An exempt car after 3000 minutes and 7 milliseconds.\<close>

theorem calculateBill_exempt_witness:
  "calculateBill 15 defaultPricingRules
      (newSession ''PK-A1B2C3'' ''TN 18 AV 4064'' car 0 True None) (3000 * 60000 + 7)
     = \<lparr>billAmount = 0, billMinutes = 3000\<rparr>"
proof -
  let ?s = "newSession ''PK-A1B2C3'' ''TN 18 AV 4064'' car 0 True None"
  have a: "isFree ?s = Some True" by (simp add: newSession_def)
  show ?thesis
    using calculateBill_exempt [OF a, of 15 defaultPricingRules "3000 * 60000 + 7"]
    by (simp add: newSession_def differenceInMinutes_def)
qed

section \<open>Verification of the vehicle number normalisation\<close>

lemma formatVehicleNumber_groups:
  "formatVehicleNumber toUpperCase val = joinWith [32] (groupsOf (cleanOf toUpperCase val))"
  by (simp add: formatVehicleNumber_def groupsOf_def cleanOf_def Let_def)

lemma take4: "take 2 xs @ take 2 (drop 2 xs) @ take 2 (drop 4 xs) @ take 4 (drop 6 xs) = take 10 xs"
proof -
  have "take 10 xs = take 2 xs @ take 8 (drop 2 xs)"
    using take_add [of 2 8 xs] by simp
  also have "take 8 (drop 2 xs) = take 2 (drop 2 xs) @ take 6 (drop 4 xs)"
    using take_add [of 2 6 "drop 2 xs"] by simp
  also have "take 6 (drop 4 xs) = take 2 (drop 4 xs) @ take 4 (drop 6 xs)"
    using take_add [of 2 4 "drop 4 xs"] by simp
  finally show ?thesis by simp
qed

lemma filter_join_groups:
  assumes "\<forall>c \<in> set xs. P c" and "\<not> P 32"
  shows "filter P (joinWith [32] (groupsOf xs)) = take 10 xs"
proof -
  have f: "\<And>n m. filter P (take n (drop m xs)) = take n (drop m xs)"
    using assms(1) by (auto simp: filter_id_conv dest!: in_set_takeD in_set_dropD)
  have f0: "\<And>n. filter P (take n xs) = take n xs"
    using f [of _ 0] by simp
  have fa: "filter P xs = xs"
    using assms(1) by (simp add: filter_id_conv)
  consider "length xs = 0" | "0 < length xs \<and> length xs \<le> 2" | "2 < length xs \<and> length xs \<le> 4"
    | "4 < length xs \<and> length xs \<le> 6" | "6 < length xs" by linarith
  then show ?thesis
  proof cases
    case 1
    then show ?thesis by (simp add: groupsOf_def)
  next
    case 2
    then show ?thesis by (simp add: groupsOf_def substring_def f0 fa)
  next
    case 3
    then show ?thesis
      using take4 [of xs] assms(2) by (simp add: groupsOf_def substring_def f f0 fa)
  next
    case 4
    then show ?thesis
      using take4 [of xs] assms(2) by (simp add: groupsOf_def substring_def f f0 fa)
  next
    case 5
    then show ?thesis
      using take4 [of xs] assms(2) by (simp add: groupsOf_def substring_def f f0 fa)
  qed
qed

lemma groupsOf_take10: "groupsOf (take 10 xs) = groupsOf xs"
  by (simp add: groupsOf_def substring_def take_drop min_def)

lemma groupsOf_spec: "groupsOf xs = spec_groups xs"
  by (auto simp: groupsOf_def spec_groups_def substring_def)

lemma isWhitespace_space: "isWhitespace 32"
  by (simp add: isWhitespace_def)

text \<open>
  A string that is made of pieces of an upper-cased string, joined by spaces, is left as
  it is by an upper-casing that leaves those pieces as they are and works on each side of
  a space by itself.
\<close>

lemma upper_join_groups:
  assumes B: "\<forall>x m n. U (take n (drop m (U x))) = take n (drop m (U x))"
    and C: "\<forall>a b. U (a @ 32 # b) = U a @ 32 # U b"
  shows "U (joinWith [32] (groupsOf (U x))) = joinWith [32] (groupsOf (U x))"
proof -
  have p: "U (take n (drop m (U x))) = take n (drop m (U x))" for m n
    using B by blast
  have p0: "U (take n (U x)) = take n (U x)" for n
    using p [of n 0] by simp
  have e: "U [] = []"
    using p0 [of 0] by simp
  have c: "U (a @ 32 # b) = U a @ 32 # U b" for a b
    using C by blast
  have pd: "U (drop m (U x)) = drop m (U x)" for m
    using p [of "length (U x)" m] by simp
  have pu: "U (U x) = U x"
    using pd [of 0] by simp
  show ?thesis
    by (simp add: groupsOf_def substring_def e p p0 pd pu c)
qed

lemma cleanOf_no_space:
  assumes A: "\<forall>x. (\<forall>c \<in> set x. \<not> isWhitespace c) \<longrightarrow> (\<forall>c \<in> set (U x). \<not> isWhitespace c)"
  shows "\<forall>c \<in> set (cleanOf U val). \<not> isWhitespace c"
proof -
  have "\<forall>c \<in> set (filter (\<lambda>c. \<not> isWhitespace c) val). \<not> isWhitespace c" by simp
  then show ?thesis using A unfolding cleanOf_def by blast
qed

lemma cleanOf_format:
  assumes A: "\<forall>x. (\<forall>c \<in> set x. \<not> isWhitespace c) \<longrightarrow> (\<forall>c \<in> set (U x). \<not> isWhitespace c)"
    and B: "\<forall>x m n. U (take n (drop m (U x))) = take n (drop m (U x))"
  shows "cleanOf U (formatVehicleNumber U val) = take 10 (cleanOf U val)"
proof -
  have "filter (\<lambda>c. \<not> isWhitespace c) (formatVehicleNumber U val) = take 10 (cleanOf U val)"
    unfolding formatVehicleNumber_groups
    using cleanOf_no_space [OF A, of val] by (intro filter_join_groups) (simp_all add: isWhitespace_space)
  moreover have "U (take 10 (cleanOf U val)) = take 10 (cleanOf U val)"
    using B [rule_format, of 10 0 "filter (\<lambda>c. \<not> isWhitespace c) val"] by (simp add: cleanOf_def)
  ultimately show ?thesis by (simp add: cleanOf_def [of U "formatVehicleNumber U val"])
qed

lemma cleanOf_prefix:
  assumes D: "\<forall>x n. take n (U x) = take n (U (take n x))"
  shows "take 10 (cleanOf U (take 10 (filter (\<lambda>c. \<not> isWhitespace c) val))) = take 10 (cleanOf U val)"
proof -
  have "filter (\<lambda>c. \<not> isWhitespace c) (take 10 (filter (\<lambda>c. \<not> isWhitespace c) val))
        = take 10 (filter (\<lambda>c. \<not> isWhitespace c) val)"
    by (auto simp: filter_id_conv dest!: in_set_takeD)
  then show ?thesis
    using D [rule_format, of 10 "filter (\<lambda>c. \<not> isWhitespace c) val"] by (simp add: cleanOf_def)
qed

subsection \<open>Upper-casing code unit by code unit\<close>

lemma concat_map_take:
  assumes "\<forall>c. u c \<noteq> []" and "n \<le> m"
  shows "take n (concat (map u (take m x))) = take n (concat (map u x))"
  using assms(2)
proof (induction x arbitrary: n m)
  case Nil
  then show ?case by simp
next
  case (Cons c xs)
  show ?case
  proof (cases m)
    case 0
    then show ?thesis using Cons.prems by simp
  next
    case (Suc k)
    have "0 < length (u c)" using assms(1) by simp
    then have "n - length (u c) \<le> k" using Cons.prems Suc by linarith
    from Cons.IH [OF this] show ?thesis by (simp add: Suc)
  qed
qed

lemma latin1Upper_cases:
  assumes "d \<in> set (latin1Upper c)"
  shows "d = c \<and> latin1Upper c = [c] \<or> (65 \<le> d \<and> d \<le> 90) \<or> (192 \<le> d \<and> d \<le> 222)
         \<or> d = 376 \<or> d = 924"
proof -
  consider "(97 \<le> c \<and> c \<le> 122) \<or> (224 \<le> c \<and> c \<le> 254 \<and> c \<noteq> 247)" | "c = 223" | "c = 255" | "c = 181"
    | "\<not> ((97 \<le> c \<and> c \<le> 122) \<or> (224 \<le> c \<and> c \<le> 254 \<and> c \<noteq> 247)) \<and> c \<noteq> 223 \<and> c \<noteq> 255 \<and> c \<noteq> 181"
    by blast
  then show ?thesis
  proof cases
    case 1
    then have "d = c - 32" using assms by (simp add: latin1Upper_def)
    with 1 show ?thesis by linarith
  next
    case 2
    then show ?thesis using assms by (simp add: latin1Upper_def)
  next
    case 3
    then show ?thesis using assms by (simp add: latin1Upper_def)
  next
    case 4
    then show ?thesis using assms by (simp add: latin1Upper_def)
  next
    case 5
    then have "latin1Upper c = [c]" by (auto simp: latin1Upper_def)
    then show ?thesis using assms by simp
  qed
qed

lemma latin1Upper_fixed:
  assumes "d \<in> set (latin1Upper c)"
  shows "latin1Upper d = [d]"
proof -
  from latin1Upper_cases [OF assms]
  consider "d = c \<and> latin1Upper c = [c]" | "65 \<le> d \<and> d \<le> 90" | "192 \<le> d \<and> d \<le> 222"
    | "d = 376" | "d = 924" by blast
  then show ?thesis
    by cases (simp_all add: latin1Upper_def)
qed

lemma latin1Upper_whitespace:
  assumes "d \<in> set (latin1Upper c)" and "isWhitespace d"
  shows "isWhitespace c"
proof -
  from latin1Upper_cases [OF assms(1)]
  consider "d = c \<and> latin1Upper c = [c]" | "65 \<le> d \<and> d \<le> 90" | "192 \<le> d \<and> d \<le> 222"
    | "d = 376" | "d = 924" by blast
  then show ?thesis
    using assms(2) by cases (simp_all add: isWhitespace_def)
qed

lemma concat_map_fixed: "\<forall>d \<in> set xs. u d = [d] \<Longrightarrow> concat (map u xs) = xs"
  by (induction xs) auto

lemma latin1UpperCase_length: "length x \<le> length (latin1UpperCase x)"
  unfolding latin1UpperCase_def
proof (induction x)
  case Nil
  then show ?case by simp
next
  case (Cons a xs)
  have "1 \<le> length (latin1Upper a)" by (simp add: latin1Upper_def)
  with Cons show ?case by simp
qed

lemma latin1UpperCase_laws:
  "\<forall>x. (\<forall>c \<in> set x. \<not> isWhitespace c) \<longrightarrow> (\<forall>c \<in> set (latin1UpperCase x). \<not> isWhitespace c)"
  "\<forall>x m n. latin1UpperCase (take n (drop m (latin1UpperCase x))) = take n (drop m (latin1UpperCase x))"
  "\<forall>a b. latin1UpperCase (a @ 32 # b) = latin1UpperCase a @ 32 # latin1UpperCase b"
  "\<forall>x n. take n (latin1UpperCase x) = take n (latin1UpperCase (take n x))"
  "\<forall>x. length x \<le> length (latin1UpperCase x)"
proof -
  show "\<forall>x. (\<forall>c \<in> set x. \<not> isWhitespace c) \<longrightarrow> (\<forall>c \<in> set (latin1UpperCase x). \<not> isWhitespace c)"
    by (auto simp: latin1UpperCase_def dest: latin1Upper_whitespace)
  show "\<forall>x m n. latin1UpperCase (take n (drop m (latin1UpperCase x))) = take n (drop m (latin1UpperCase x))"
  proof (intro allI)
    fix x m n
    have "\<forall>d \<in> set (take n (drop m (latin1UpperCase x))). latin1Upper d = [d]"
      by (auto simp: latin1UpperCase_def dest!: in_set_takeD in_set_dropD dest: latin1Upper_fixed)
    then show "latin1UpperCase (take n (drop m (latin1UpperCase x))) = take n (drop m (latin1UpperCase x))"
      unfolding latin1UpperCase_def [of "take n (drop m (latin1UpperCase x))"]
      by (rule concat_map_fixed)
  qed
  show "\<forall>a b. latin1UpperCase (a @ 32 # b) = latin1UpperCase a @ 32 # latin1UpperCase b"
    by (simp add: latin1UpperCase_def latin1Upper_def)
  show "\<forall>x n. take n (latin1UpperCase x) = take n (latin1UpperCase (take n x))"
  proof (intro allI)
    fix x n
    have "\<forall>c. latin1Upper c \<noteq> []" by (simp add: latin1Upper_def)
    from concat_map_take [OF this, of n n x]
    show "take n (latin1UpperCase x) = take n (latin1UpperCase (take n x))"
      by (simp add: latin1UpperCase_def)
  qed
  show "\<forall>x. length x \<le> length (latin1UpperCase x)"
    by (simp add: latin1UpperCase_length)
qed

subsection \<open>The normal form\<close>

text \<open>
  Claim C10, for every string of code units and every host. What the proof uses of the
  built-in \<open>toUpperCase\<close> are five laws of the Unicode case mappings, which work code point
  by code point: it makes no white space; a piece cut out of an upper-cased string is
  left as it is (every code point there is its own capital, and half a surrogate pair
  has none); a space is kept and splits the work in two; the first \<open>n\<close> code units of the
  result only depend on the first \<open>n\<close> code units of the string; and no string gets
  shorter (the sharp s gets longer). Then \<open>formatVehicleNumber\<close> is idempotent; its
  result is in upper case; it is the pieces of two, two, two and four code units of the
  upper-cased input without white space, joined by single spaces, and without those
  spaces it is exactly the first ten code units of that string; it only depends on the
  first ten code units of the input that are not white space, so that whatever follows
  ten of them is dropped; and an input with at least ten of them gives four groups of
  lengths 2, 2, 2 and 4.
\<close>

theorem formatVehicleNumber_canonical:
  assumes "\<forall>x. (\<forall>c \<in> set x. \<not> isWhitespace c) \<longrightarrow> (\<forall>c \<in> set (toUpperCase x). \<not> isWhitespace c)"
    and "\<forall>x m n. toUpperCase (take n (drop m (toUpperCase x))) = take n (drop m (toUpperCase x))"
    and "\<forall>a b. toUpperCase (a @ 32 # b) = toUpperCase a @ 32 # toUpperCase b"
    and "\<forall>x n. take n (toUpperCase x) = take n (toUpperCase (take n x))"
    and "\<forall>x. length x \<le> length (toUpperCase x)"
  shows "formatVehicleNumber toUpperCase (formatVehicleNumber toUpperCase s)
           = formatVehicleNumber toUpperCase s
   \<and> toUpperCase (formatVehicleNumber toUpperCase s) = formatVehicleNumber toUpperCase s
   \<and> formatVehicleNumber toUpperCase s
       = joinWith [32] (spec_groups (toUpperCase (filter (\<lambda>c. \<not> isWhitespace c) s)))
   \<and> filter (\<lambda>c. c \<noteq> 32) (formatVehicleNumber toUpperCase s)
       = take 10 (toUpperCase (filter (\<lambda>c. \<not> isWhitespace c) s))
   \<and> formatVehicleNumber toUpperCase s
       = formatVehicleNumber toUpperCase (take 10 (filter (\<lambda>c. \<not> isWhitespace c) s))
   \<and> (10 \<le> length (filter (\<lambda>c. \<not> isWhitespace c) s) \<longrightarrow>
         formatVehicleNumber toUpperCase (s @ rest) = formatVehicleNumber toUpperCase s
         \<and> (\<exists>a b c d. formatVehicleNumber toUpperCase s = a @ [32] @ b @ [32] @ c @ [32] @ d
              \<and> length a = 2 \<and> length b = 2 \<and> length c = 2 \<and> length d = 4
              \<and> (\<forall>x \<in> set (a @ b @ c @ d). \<not> isWhitespace x)))"
proof -
  note A = assms(1) and B = assms(2) and C = assms(3) and D = assms(4) and L = assms(5)
  let ?U = toUpperCase
  let ?c = "cleanOf ?U s"
  have nows: "\<forall>c \<in> set ?c. \<not> isWhitespace c"
    by (rule cleanOf_no_space [OF A])
  have idem: "formatVehicleNumber ?U (formatVehicleNumber ?U s) = formatVehicleNumber ?U s"
    by (simp only: formatVehicleNumber_groups [of ?U "formatVehicleNumber ?U s"]
        cleanOf_format [OF A B] groupsOf_take10 formatVehicleNumber_groups [of ?U s, symmetric])
  have up: "?U (formatVehicleNumber ?U s) = formatVehicleNumber ?U s"
    unfolding formatVehicleNumber_groups cleanOf_def
    by (rule upper_join_groups [OF B C])
  have grp: "formatVehicleNumber ?U s
      = joinWith [32] (spec_groups (?U (filter (\<lambda>c. \<not> isWhitespace c) s)))"
    by (simp add: formatVehicleNumber_groups groupsOf_spec cleanOf_def)
  have flt: "filter (\<lambda>c. c \<noteq> 32) (formatVehicleNumber ?U s) = take 10 ?c"
    unfolding formatVehicleNumber_groups
  proof (rule filter_join_groups)
    show "\<forall>c \<in> set ?c. c \<noteq> 32" using nows isWhitespace_space by blast
    show "\<not> (32::nat) \<noteq> 32" by simp
  qed
  have pre: "formatVehicleNumber ?U s
      = formatVehicleNumber ?U (take 10 (filter (\<lambda>c. \<not> isWhitespace c) s))"
  proof -
    have "groupsOf (cleanOf ?U (take 10 (filter (\<lambda>c. \<not> isWhitespace c) s)))
        = groupsOf (take 10 (cleanOf ?U (take 10 (filter (\<lambda>c. \<not> isWhitespace c) s))))"
      by (simp only: groupsOf_take10)
    also have "\<dots> = groupsOf (take 10 ?c)"
      by (simp only: cleanOf_prefix [OF D])
    also have "\<dots> = groupsOf ?c"
      by (simp only: groupsOf_take10)
    finally show ?thesis by (simp only: formatVehicleNumber_groups)
  qed
  have full: "10 \<le> length (filter (\<lambda>c. \<not> isWhitespace c) s) \<longrightarrow>
         formatVehicleNumber ?U (s @ rest) = formatVehicleNumber ?U s
         \<and> (\<exists>a b c d. formatVehicleNumber ?U s = a @ [32] @ b @ [32] @ c @ [32] @ d
              \<and> length a = 2 \<and> length b = 2 \<and> length c = 2 \<and> length d = 4
              \<and> (\<forall>x \<in> set (a @ b @ c @ d). \<not> isWhitespace x))"
  proof
    assume len: "10 \<le> length (filter (\<lambda>c. \<not> isWhitespace c) s)"
    have "length (filter (\<lambda>c. \<not> isWhitespace c) s) \<le> length ?c"
      using L by (simp add: cleanOf_def)
    with len have l: "10 \<le> length ?c" by linarith
    have "take 10 (filter (\<lambda>c. \<not> isWhitespace c) (s @ rest))
        = take 10 (filter (\<lambda>c. \<not> isWhitespace c) s)"
      using len by simp
    then have "formatVehicleNumber ?U (take 10 (filter (\<lambda>c. \<not> isWhitespace c) (s @ rest)))
        = formatVehicleNumber ?U (take 10 (filter (\<lambda>c. \<not> isWhitespace c) s))"
      by (simp only:)
    moreover have "formatVehicleNumber ?U (s @ rest)
        = formatVehicleNumber ?U (take 10 (filter (\<lambda>c. \<not> isWhitespace c) (s @ rest)))"
    proof -
      have "groupsOf (cleanOf ?U (take 10 (filter (\<lambda>c. \<not> isWhitespace c) (s @ rest))))
          = groupsOf (take 10 (cleanOf ?U (take 10 (filter (\<lambda>c. \<not> isWhitespace c) (s @ rest)))))"
        by (simp only: groupsOf_take10)
      also have "\<dots> = groupsOf (take 10 (cleanOf ?U (s @ rest)))"
        by (simp only: cleanOf_prefix [OF D])
      also have "\<dots> = groupsOf (cleanOf ?U (s @ rest))"
        by (simp only: groupsOf_take10)
      finally show ?thesis by (simp only: formatVehicleNumber_groups)
    qed
    ultimately have ext: "formatVehicleNumber ?U (s @ rest) = formatVehicleNumber ?U s"
      using pre by simp
    let ?a = "take 2 ?c" and ?b = "take 2 (drop 2 ?c)" and ?cc = "take 2 (drop 4 ?c)" and ?d = "take 4 (drop 6 ?c)"
    have "formatVehicleNumber ?U s = ?a @ [32] @ ?b @ [32] @ ?cc @ [32] @ ?d"
    proof -
      have "?c \<noteq> []" using l by auto
      then show ?thesis
        using l by (simp add: formatVehicleNumber_groups groupsOf_def substring_def)
    qed
    moreover have "length ?a = 2 \<and> length ?b = 2 \<and> length ?cc = 2 \<and> length ?d = 4"
      using l by simp
    moreover have "\<forall>x \<in> set (?a @ ?b @ ?cc @ ?d). \<not> isWhitespace x"
      using nows by (auto dest!: in_set_takeD in_set_dropD)
    ultimately have "\<exists>a b c d. formatVehicleNumber ?U s = a @ [32] @ b @ [32] @ c @ [32] @ d
            \<and> length a = 2 \<and> length b = 2 \<and> length c = 2 \<and> length d = 4
            \<and> (\<forall>x \<in> set (a @ b @ c @ d). \<not> isWhitespace x)"
      by blast
    with ext show "formatVehicleNumber ?U (s @ rest) = formatVehicleNumber ?U s
         \<and> (\<exists>a b c d. formatVehicleNumber ?U s = a @ [32] @ b @ [32] @ c @ [32] @ d
              \<and> length a = 2 \<and> length b = 2 \<and> length c = 2 \<and> length d = 4
              \<and> (\<forall>x \<in> set (a @ b @ c @ d). \<not> isWhitespace x))"
      by (rule conjI)
  qed
  have flt': "filter (\<lambda>c. c \<noteq> 32) (formatVehicleNumber ?U s)
       = take 10 (?U (filter (\<lambda>c. \<not> isWhitespace c) s))"
    using flt by (simp only: cleanOf_def)
  show ?thesis
    by (intro conjI) (rule idem, rule up, rule grp, rule flt', rule pre, rule full)
qed

text \<open>
  On a host whose \<open>toUpperCase\<close> is that of Latin-1, which has the five laws
  (\<open>latin1UpperCase_laws\<close>): a plate typed in lower case with stray blanks and three
  characters too many; the French word for summer after a no-break space, with an em
  space before a digit; and a street name with a sharp s, which makes seven letters of
  six.
\<close>

theorem formatVehicleNumber_canonical_witness:
  "formatVehicleNumber latin1UpperCase (codeUnits '' tn18 av 4064xyz '') = codeUnits ''TN 18 AV 4064''
   \<and> formatVehicleNumber latin1UpperCase (codeUnits ''TN 18 AV 4064'') = codeUnits ''TN 18 AV 4064''
   \<and> 10 \<le> length (filter (\<lambda>c. \<not> isWhitespace c) (codeUnits '' tn18 av 4064xyz ''))
   \<and> formatVehicleNumber latin1UpperCase (codeUnits '' tn18 av 4064'' @ codeUnits ''xyz '')
       = formatVehicleNumber latin1UpperCase (codeUnits '' tn18 av 4064'')
   \<and> formatVehicleNumber latin1UpperCase [160, 233, 116, 233, 8195, 49] = [201, 84, 32, 201, 49]
   \<and> formatVehicleNumber latin1UpperCase [201, 84, 32, 201, 49] = [201, 84, 32, 201, 49]
   \<and> formatVehicleNumber latin1UpperCase (codeUnits ''stra'' @ [223] @ codeUnits ''e 12'')
       = codeUnits ''ST RA SS E12''"
proof -
  note t = formatVehicleNumber_canonical [OF latin1UpperCase_laws]
  have e: "formatVehicleNumber latin1UpperCase (codeUnits '' tn18 av 4064xyz '') = codeUnits ''TN 18 AV 4064''"
    by (simp add: formatVehicleNumber_def latin1UpperCase_def latin1Upper_def isWhitespace_def
        substring_def codeUnits_def)
  have l: "10 \<le> length (filter (\<lambda>c. \<not> isWhitespace c) (codeUnits '' tn18 av 4064xyz ''))"
    by (simp add: isWhitespace_def codeUnits_def)
  have "formatVehicleNumber latin1UpperCase (formatVehicleNumber latin1UpperCase (codeUnits '' tn18 av 4064xyz ''))
          = formatVehicleNumber latin1UpperCase (codeUnits '' tn18 av 4064xyz '')"
    using t [of "codeUnits '' tn18 av 4064xyz ''"] by (rule conjunct1)
  then have i: "formatVehicleNumber latin1UpperCase (codeUnits ''TN 18 AV 4064'') = codeUnits ''TN 18 AV 4064''"
    by (simp only: e)
  have l': "10 \<le> length (filter (\<lambda>c. \<not> isWhitespace c) (codeUnits '' tn18 av 4064''))"
    by (simp add: isWhitespace_def codeUnits_def)
  have x: "formatVehicleNumber latin1UpperCase (codeUnits '' tn18 av 4064'' @ codeUnits ''xyz '')
       = formatVehicleNumber latin1UpperCase (codeUnits '' tn18 av 4064'')"
    using t [of "codeUnits '' tn18 av 4064''" "codeUnits ''xyz ''"] l' by blast
  have f: "formatVehicleNumber latin1UpperCase [160, 233, 116, 233, 8195, 49] = [201, 84, 32, 201, 49]"
    by (simp add: formatVehicleNumber_def latin1UpperCase_def latin1Upper_def isWhitespace_def
        substring_def)
  have "formatVehicleNumber latin1UpperCase (formatVehicleNumber latin1UpperCase [160, 233, 116, 233, 8195, 49])
          = formatVehicleNumber latin1UpperCase [160, 233, 116, 233, 8195, 49]"
    using t [of "[160, 233, 116, 233, 8195, 49]"] by (rule conjunct1)
  then have g: "formatVehicleNumber latin1UpperCase [201, 84, 32, 201, 49] = [201, 84, 32, 201, 49]"
    by (simp only: f)
  have h: "formatVehicleNumber latin1UpperCase (codeUnits ''stra'' @ [223] @ codeUnits ''e 12'')
       = codeUnits ''ST RA SS E12''"
    by (simp add: formatVehicleNumber_def latin1UpperCase_def latin1Upper_def isWhitespace_def
        substring_def codeUnits_def)
  show ?thesis
    by (intro conjI) (rule e, rule i, rule l, rule x, rule f, rule g, rule h)
qed

section \<open>Verification of entry and exit\<close>

subsection \<open>Membership passes at the gate\<close>

text \<open>
  Claim C3 calls a pass expired at the instant of its expiry date. The source tests
  \<open>isBefore(expiryDate, now)\<close>: at that instant the pass is not expired and the vehicle is
  admitted.
\<close>

theorem handleEntry_expiry_instant_counterexample:
  "\<not> (1000::int) < expiryDate (examplePass 1000)
   \<and> fst (handleEntry (Some 7) 1000 ''PK-A1B2C3'' False
        (initialState\<lparr>formVehicleNumber := ''TN 18 AV 4064'', passes := [examplePass 1000]\<rparr>))
      = Entered (newSession ''PK-A1B2C3'' ''TN 18 AV 4064'' car 1000 True None)"
  by (simp add: handleEntry_def logEntry_def Let_def initialState_def examplePass_def
      notLoggedIn_def isBefore_def)

text \<open>
  Claim C3, as the source has it. For an entry of a vehicle without an active session
  that holds a pass, the pass is valid at the instant \<open>now\<close> when \<open>now \<le> expiryDate\<close>:
  a pass whose expiry date is before \<open>now\<close> rejects the entry with the membership
  alert and leaves the state as it was; a valid pass never does, and once the entry is
  logged the session is exempt whatever the form's exemption toggle says.
\<close>

theorem handleEntry_membership:
  assumes "formVehicleNumber st \<noteq> []" and "\<not> notLoggedIn userId"
    and "find (\<lambda>s. vehicleNumber s = formVehicleNumber st \<and> status s = active) (sessions st) = None"
    and "find (\<lambda>p. passVehicleNumber p = formVehicleNumber st) (passes st) = Some pass"
  shows "(expiryDate pass < now \<longrightarrow>
            handleEntry userId now newId insertError st = (MembershipExpired, st))
       \<and> (now \<le> expiryDate pass \<longrightarrow>
            fst (handleEntry userId now newId insertError st) \<noteq> MembershipExpired)
       \<and> (now \<le> expiryDate pass \<and> \<not> insertError \<longrightarrow>
            (\<exists>created. fst (handleEntry userId now newId insertError st) = Entered created
               \<and> isFree created = Some True \<and> status created = active
               \<and> vehicleNumber created = formVehicleNumber st \<and> entryTime created = now
               \<and> sessions (snd (handleEntry userId now newId insertError st))
                  = created # sessions st))"
  using assms
  by (auto simp: handleEntry_def logEntry_def Let_def isBefore_def newSession_def)

text \<open>A pass expiring at 1000: rejected at 2000, admitted exempt at 500 with the toggle off.\<close>

theorem handleEntry_membership_witness:
  "handleEntry (Some 7) 2000 ''PK-A1B2C3'' False
      (initialState\<lparr>formVehicleNumber := ''TN 18 AV 4064'', passes := [examplePass 1000]\<rparr>)
     = (MembershipExpired,
        initialState\<lparr>formVehicleNumber := ''TN 18 AV 4064'', passes := [examplePass 1000]\<rparr>)
   \<and> formIsFree (initialState\<lparr>formVehicleNumber := ''TN 18 AV 4064'', passes := [examplePass 1000]\<rparr>) = False
   \<and> (\<exists>created. fst (handleEntry (Some 7) 500 ''PK-A1B2C3'' False
          (initialState\<lparr>formVehicleNumber := ''TN 18 AV 4064'', passes := [examplePass 1000]\<rparr>))
        = Entered created \<and> isFree created = Some True)"
proof -
  let ?st = "initialState\<lparr>formVehicleNumber := ''TN 18 AV 4064'', passes := [examplePass 1000]\<rparr>"
  have a: "formVehicleNumber ?st \<noteq> []" by simp
  have b: "\<not> notLoggedIn (Some 7)" by (simp add: notLoggedIn_def)
  have c: "find (\<lambda>s. vehicleNumber s = formVehicleNumber ?st \<and> status s = active) (sessions ?st) = None"
    by (simp add: initialState_def)
  have d: "find (\<lambda>p. passVehicleNumber p = formVehicleNumber ?st) (passes ?st) = Some (examplePass 1000)"
    by (simp add: examplePass_def)
  have e: "expiryDate (examplePass 1000) = 1000" by (simp add: examplePass_def)
  have f: "formIsFree ?st = False" by (simp add: initialState_def)
  show ?thesis
    using handleEntry_membership [OF a b c d, of 2000 "''PK-A1B2C3''" False]
      handleEntry_membership [OF a b c d, of 500 "''PK-A1B2C3''" False] f
    by (simp only: e) auto
qed


subsection \<open>The session invariant\<close>



lemma handleEntryFrom_alone:
  "handleEntryFrom st userId now newId insertError \<lparr>dbSessions = rows, app = st\<rparr>
     = (fst (handleEntry userId now newId insertError st),
        \<lparr>dbSessions = (case fst (handleEntry userId now newId insertError st) of
                         Entered created \<Rightarrow> created # rows | _ \<Rightarrow> rows),
         app = snd (handleEntry userId now newId insertError st)\<rparr>)"
  by (simp add: handleEntryFrom_def handleEntry_def insertEntry_def logEntry_def Let_def
      split: option.splits)

lemma handleEntryFrom_decision:
  "fst (handleEntryFrom snap userId now newId insertError w)
     = fst (handleEntryFrom snap userId now newId insertError w')"
  by (simp add: handleEntryFrom_def insertEntry_def Let_def split: option.splits)

lemma handleEntryFrom_duplicate:
  assumes "formVehicleNumber snap \<noteq> []" and "\<not> notLoggedIn userId"
    and "s \<in> set (sessions snap)" and "vehicleNumber s = formVehicleNumber snap" and "status s = active"
  shows "handleEntryFrom snap userId now newId insertError w = (DuplicateActiveSession, w)"
proof -
  have "find (\<lambda>s. vehicleNumber s = formVehicleNumber snap \<and> status s = active) (sessions snap) \<noteq> None"
    using assms(3-5) by (auto simp: find_None_iff)
  then show ?thesis using assms(1,2) by (simp add: handleEntryFrom_def)
qed

lemma handleEntry_sessions:
  "sessions (snd (handleEntry userId now newId insertError st)) = sessions st
   \<or> (find (\<lambda>s. vehicleNumber s = formVehicleNumber st \<and> status s = active) (sessions st) = None
       \<and> (\<exists>free img. sessions (snd (handleEntry userId now newId insertError st))
            = newSession newId (formVehicleNumber st) (formVehicleType st) now free img # sessions st))"
  by (auto simp: handleEntry_def logEntry_def Let_def split: option.splits)

lemma handleEntry_invariant:
  assumes "oneActivePerVehicle (sessions st)"
  shows "oneActivePerVehicle (sessions (snd (handleEntry userId now newId insertError st)))"
proof -
  from handleEntry_sessions [of userId now newId insertError st]
  show ?thesis
  proof
    assume "sessions (snd (handleEntry userId now newId insertError st)) = sessions st"
    then show ?thesis using assms by simp
  next
    assume a: "find (\<lambda>s. vehicleNumber s = formVehicleNumber st \<and> status s = active) (sessions st) = None
       \<and> (\<exists>free img. sessions (snd (handleEntry userId now newId insertError st))
            = newSession newId (formVehicleNumber st) (formVehicleType st) now free img # sessions st)"
    then have "\<forall>s \<in> set (sessions st). \<not> (vehicleNumber s = formVehicleNumber st \<and> status s = active)"
      by (simp add: find_None_iff)
    then have "formVehicleNumber st \<notin> set (map vehicleNumber (filter (\<lambda>s. status s = active) (sessions st)))"
      by auto
    then show ?thesis using a assms
      by (auto simp: oneActivePerVehicle_def newSession_def)
  qed
qed

text \<open>
  Claim C4 does not hold of the source when two submissions of the entry form overlap.
  \<open>handleEntry\<close> looks for an active session of the plate in the session list of the render
  in which the form was submitted (page.tsx, line 240), waits for the insert (line 266),
  and then stores the list of that same render with the new session in front (line 282);
  the submit button is never disabled meanwhile (line 810). Two submissions for the plate
  TN 18 AV 4064 that start from the same render of an empty car park, the second before
  the insert of the first has returned, are therefore both logged: neither is rejected as
  a duplicate, and the table holds two active sessions for the plate. Run from the state
  the previous operation left, an entry does keep the invariant
  (\<open>handleEntry_invariant\<close>, \<open>handleEntryFrom_alone\<close>), and an entry whose render
  shows an active session of the plate is rejected (\<open>handleEntryFrom_duplicate\<close>).
\<close>

theorem handleEntry_overlapping_submits:
  "fst (handleEntryFrom (app arrivingWorld) (Some 7) 1000 ''PK-A1B2C3'' False arrivingWorld)
     = Entered (newSession ''PK-A1B2C3'' ''TN 18 AV 4064'' car 1000 False None)
   \<and> fst (handleEntryFrom (app arrivingWorld) (Some 7) 1001 ''PK-D4E5F6'' False
            (snd (handleEntryFrom (app arrivingWorld) (Some 7) 1000 ''PK-A1B2C3'' False arrivingWorld)))
     = Entered (newSession ''PK-D4E5F6'' ''TN 18 AV 4064'' car 1001 False None)
   \<and> dbSessions (snd (handleEntryFrom (app arrivingWorld) (Some 7) 1001 ''PK-D4E5F6'' False
            (snd (handleEntryFrom (app arrivingWorld) (Some 7) 1000 ''PK-A1B2C3'' False arrivingWorld))))
     = [newSession ''PK-D4E5F6'' ''TN 18 AV 4064'' car 1001 False None,
        newSession ''PK-A1B2C3'' ''TN 18 AV 4064'' car 1000 False None]
   \<and> \<not> oneActivePerVehicle
        (dbSessions (snd (handleEntryFrom (app arrivingWorld) (Some 7) 1001 ''PK-D4E5F6'' False
            (snd (handleEntryFrom (app arrivingWorld) (Some 7) 1000 ''PK-A1B2C3'' False arrivingWorld)))))"
  by (simp add: handleEntryFrom_def insertEntry_def Let_def arrivingWorld_def initialState_def
      notLoggedIn_def newSession_def oneActivePerVehicle_def)

subsection \<open>Completed sessions are final\<close>
















section \<open>Verification of the membership renewal\<close>

subsection \<open>The calendar: a day number and its civil date\<close>

lemma civilFromDays_sound:
  assumes "civilFromDays z = (y, m, d)"
  shows "1 \<le> m \<and> m \<le> 12 \<and> 1 \<le> d \<and> d \<le> 31 \<and> daysFromCivil y m d = z"
proof -
  define shifted where "shifted = z + 719468"
  define era where "era = shifted div 146097"
  define doe where "doe = shifted mod 146097"
  define cent where "cent = min 3 (doe div 36524)"
  define doc where "doc = doe - cent * 36524"
  define quad where "quad = doc div 1461"
  define doq where "doq = doc - quad * 1461"
  define yr where "yr = min 3 (doq div 365)"
  define doy where "doy = doq - yr * 365"
  define mp where "mp = (5 * doy + 2) div 153"
  define yoe where "yoe = cent * 100 + quad * 4 + yr"
  have sh: "shifted = era * 146097 + doe"
    by (simp add: era_def doe_def)
  have doe: "0 \<le> doe \<and> doe \<le> 146096"
    by (simp add: doe_def) 
  have cent: "0 \<le> cent \<and> cent \<le> 3"
    using doe by (simp add: cent_def pos_imp_zdiv_nonneg_iff)
  have doc: "0 \<le> doc \<and> doc \<le> 36524 \<and> (cent < 3 \<longrightarrow> doc \<le> 36523)"
    using doe unfolding doc_def cent_def min_def by (simp split: if_splits) linarith
  have quad: "0 \<le> quad \<and> quad \<le> 24"
    using doc unfolding quad_def by linarith
  have doq: "0 \<le> doq \<and> doq \<le> 1460 \<and> (quad = 24 \<and> cent < 3 \<longrightarrow> doq \<le> 1459)"
    using doc unfolding doq_def quad_def by linarith
  have yr: "0 \<le> yr \<and> yr \<le> 3"
    using doq by (simp add: yr_def pos_imp_zdiv_nonneg_iff)
  have doy: "0 \<le> doy \<and> doy \<le> 365"
    using doq unfolding doy_def yr_def min_def by (simp split: if_splits) linarith
  have mp: "0 \<le> mp \<and> mp \<le> 11"
    using doy unfolding mp_def by linarith
  have dd: "0 \<le> doy - (153 * mp + 2) div 5 \<and> doy - (153 * mp + 2) div 5 \<le> 30"
    using doy unfolding mp_def by linarith
  have yoe: "0 \<le> yoe \<and> yoe \<le> 399"
    using cent quad yr unfolding yoe_def by linarith
  have res: "civilFromDays z =
     (era * 400 + cent * 100 + quad * 4 + yr + (if (if mp < 10 then mp + 3 else mp - 9) \<le> 2 then 1 else 0),
      (if mp < 10 then mp + 3 else mp - 9),
      doy - (153 * mp + 2) div 5 + 1)"
    unfolding civilFromDays_def Let_def shifted_def era_def doe_def cent_def doc_def
        quad_def doq_def yr_def doy_def mp_def
    by (rule refl)
  have y400: "(era * 400 + yoe) div 400 = era \<and> (era * 400 + yoe) mod 400 = yoe"
    using yoe by (simp add: div_pos_pos_trivial)
  have y4: "yoe div 4 = cent * 25 + quad"
    using yr unfolding yoe_def by linarith
  have y100: "yoe div 100 = cent"
    using yr quad cent unfolding yoe_def by linarith
  have total: "doe = cent * 36524 + quad * 1461 + yr * 365 + doy"
    by (simp add: doc_def doq_def doy_def)
  have m: "1 \<le> (if mp < 10 then mp + 3 else mp - 9) \<and> (if mp < 10 then mp + 3 else mp - 9) \<le> 12"
    using mp by auto
  have rt: "daysFromCivil (era * 400 + yoe + (if mp < 10 then 0 else 1))
                (if mp < 10 then mp + 3 else mp - 9) (doy - (153 * mp + 2) div 5 + 1) = z"
  proof (cases "mp < 10")
    case True
    have "daysFromCivil (era * 400 + yoe) (mp + 3) (doy - (153 * mp + 2) div 5 + 1)
          = era * 146097 + (yoe * 365 + yoe div 4 - yoe div 100 + doy) - 719468"
      using mp y400 by (simp add: daysFromCivil_def daysBeforeMarchYear_def Let_def)
    also have "\<dots> = z"
      unfolding y4 y100 using total sh by (simp add: shifted_def yoe_def)
    finally show ?thesis using True by simp
  next
    case False
    have "daysFromCivil (era * 400 + yoe + 1) (mp - 9) (doy - (153 * mp + 2) div 5 + 1)
          = era * 146097 + (yoe * 365 + yoe div 4 - yoe div 100 + doy) - 719468"
      using mp False y400 by (simp add: daysFromCivil_def daysBeforeMarchYear_def Let_def)
    also have "\<dots> = z"
      unfolding y4 y100 using total sh by (simp add: shifted_def yoe_def)
    finally show ?thesis using False by simp
  qed
  have ym: "(if (if mp < 10 then mp + 3 else mp - 9) \<le> 2 then 1 else 0) = (if mp < 10 then 0 else (1::int))"
    using mp by auto
  have "(y, m, d) = (era * 400 + yoe + (if mp < 10 then 0 else 1),
      (if mp < 10 then mp + 3 else mp - 9), doy - (153 * mp + 2) div 5 + 1)"
    using assms res ym by (simp add: yoe_def)
  then show ?thesis
    using m dd rt by simp
qed


lemma daysFromCivil_day: "daysFromCivil y m d = daysFromCivil y m 1 + d - 1"
  by (simp add: daysFromCivil_def Let_def)

subsection \<open>Years and months only move forward\<close>

lemma split400:
  fixes e k :: int
  assumes "0 \<le> k" and "k < 400"
  shows "(e * 400 + k) div 400 = e \<and> (e * 400 + k) mod 400 = k"
  using assms by (simp add: div_pos_pos_trivial)

lemma div100_const:
  fixes r k :: int
  assumes "k * 100 \<le> r" and "r < k * 100 + 100"
  shows "r div 100 = k"
  by (rule int_div_pos_eq [where r = "r - k * 100"]) (use assms in auto)

lemma div_step_4_100:
  fixes r :: int
  assumes "0 \<le> r" and "r < 399"
  shows "(r + 1) div 100 - r div 100 \<le> (r + 1) div 4 - r div 4"
proof -
  consider "r = 99 \<or> r = 199 \<or> r = 299" | "r < 99" | "99 < r \<and> r < 199"
    | "199 < r \<and> r < 299" | "299 < r"
    using assms by linarith
  then have "r = 99 \<or> r = 199 \<or> r = 299 \<or> (r + 1) div 100 = r div 100"
  proof cases
    case 1
    then show ?thesis by blast
  next
    case 2
    then show ?thesis using assms div100_const [of 0 r] div100_const [of 0 "r + 1"] by simp
  next
    case 3
    then show ?thesis using assms div100_const [of 1 r] div100_const [of 1 "r + 1"] by simp
  next
    case 4
    then show ?thesis using assms div100_const [of 2 r] div100_const [of 2 "r + 1"] by simp
  next
    case 5
    then show ?thesis using assms div100_const [of 3 r] div100_const [of 3 "r + 1"] by simp
  qed
  moreover have "r div 4 \<le> (r + 1) div 4"
    by (rule zdiv_mono1) simp_all
  ultimately show ?thesis by auto
qed

lemma daysBeforeMarchYear_step:
  "daysBeforeMarchYear y + 365 \<le> daysBeforeMarchYear (y + 1)"
proof -
  define e where "e = y div 400"
  define r where "r = y mod 400"
  have y: "y = e * 400 + r" by (simp add: e_def r_def)
  have r: "0 \<le> r \<and> r \<le> 399" by (simp add: r_def)
  have l: "daysBeforeMarchYear y = e * 146097 + r * 365 + r div 4 - r div 100"
    by (simp add: daysBeforeMarchYear_def Let_def e_def r_def)
  show ?thesis
  proof (cases "r = 399")
    case True
    have "y + 1 = (e + 1) * 400 + 0" using y True by simp
    then have "(y + 1) div 400 = e + 1 \<and> (y + 1) mod 400 = 0"
      using split400 [of 0 "e + 1"] by simp
    then have "daysBeforeMarchYear (y + 1) = (e + 1) * 146097"
      by (simp add: daysBeforeMarchYear_def Let_def)
    then show ?thesis using True l by simp
  next
    case False
    then have r1: "0 \<le> r + 1" "r + 1 < 400" using r by simp_all
    have "y + 1 = e * 400 + (r + 1)" using y by simp
    then have s: "(y + 1) div 400 = e \<and> (y + 1) mod 400 = r + 1"
      using split400 [OF r1, of e] by (simp only:)
    then have n: "daysBeforeMarchYear (y + 1) = e * 146097 + (r + 1) * 365 + (r + 1) div 4 - (r + 1) div 100"
      by (simp add: daysBeforeMarchYear_def Let_def)
    have "(r + 1) div 100 - r div 100 \<le> (r + 1) div 4 - r div 4"
      using r False by (intro div_step_4_100) simp_all
    then show ?thesis using l n by simp
  qed
qed

lemma two_months_ahead:
  assumes "1 \<le> m" and "m \<le> 12"
  shows "daysFromCivil y m 1 + 59 \<le> daysFromCivil (y + (m + 1) div 12) ((m + 1) mod 12 + 1) 1"
proof -
  have "m = 1 \<or> m = 2 \<or> m = 3 \<or> m = 4 \<or> m = 5 \<or> m = 6 \<or> m = 7 \<or> m = 8
    \<or> m = 9 \<or> m = 10 \<or> m = 11 \<or> m = 12"
    using assms by presburger
  then consider "m = 1 \<or> m = 2" | "m = 3 \<or> m = 4 \<or> m = 5 \<or> m = 6 \<or> m = 7 \<or> m = 8
    \<or> m = 9 \<or> m = 10 \<or> m = 11 \<or> m = 12"
    by blast
  then show ?thesis
  proof cases
    case 1
    then show ?thesis
      using daysBeforeMarchYear_step [of "y - 1"] by (auto simp: daysFromCivil_def Let_def)
  next
    case 2
    then show ?thesis
      by (auto simp: daysFromCivil_def Let_def)
  qed
qed


subsection \<open>One month later in the time zone of the host\<close>

lemma addMonths_one_later:
  assumes k: "0 \<le> k"
    and off: "\<forall>s t. \<bar>utcOffset z s - localOffset z t\<bar> \<le> k * msPerDay"
  shows "date + (28 - 2 * k) * msPerDay \<le> addMonths z date 1"
proof -
  define t where "t = localTime z date"
  define day where "day = t div msPerDay"
  define timeOfDay where "timeOfDay = t mod msPerDay"
  have t: "t = day * msPerDay + timeOfDay"
    by (simp add: day_def timeOfDay_def)
  have tod: "0 \<le> timeOfDay" "timeOfDay < msPerDay"
    by (simp_all add: timeOfDay_def msPerDay_def)
  obtain y m d where c: "civilFromDays day = (y, m, d)"
    by (cases "civilFromDays day") auto
  from civilFromDays_sound [OF c]
  have m: "1 \<le> m" "m \<le> 12" and d: "1 \<le> d" "d \<le> 31" and rt: "daysFromCivil y m d = day"
    by simp_all
  define endDay where "endDay = makeDay y (m + 1) 0"
  define endOfDesiredMonth where "endOfDesiredMonth = utcTime z (endDay * msPerDay + timeOfDay)"
  define shown where "shown = localTime z endOfDesiredMonth div msPerDay"
  have "endDay = daysFromCivil (y + (m + 1) div 12) ((m + 1) mod 12 + 1) 1 - 1"
    by (simp add: endDay_def makeDay_def)
  moreover have "day = daysFromCivil y m 1 + d - 1"
    using rt daysFromCivil_day [of y m d] by simp
  ultimately have far: "day + 59 - d \<le> endDay"
    using two_months_ahead [OF m, of y] by simp
  obtain ey em dim where ce: "civilFromDays shown = (ey, em, dim)"
    by (cases "civilFromDays shown") auto
  from civilFromDays_sound [OF ce]
  have em: "1 \<le> em" "em \<le> 12" and dim: "1 \<le> dim" "dim \<le> 31"
    and rte: "daysFromCivil ey em dim = shown"
    by simp_all
  have idx: "(em - 1) div 12 = 0 \<and> (em - 1) mod 12 = em - 1"
    using em by (simp add: div_pos_pos_trivial)
  have keep: "makeDay ey (em - 1) d = shown - dim + d"
    using rte daysFromCivil_day [of ey em dim] idx by (simp add: makeDay_def)
  have res: "addMonths z date 1 =
      (if dim \<le> d then endOfDesiredMonth
       else utcTime z (makeDay ey (em - 1) d * msPerDay + timeOfDay))"
    using c ce
    by (simp add: addMonths_def Let_def t_def [symmetric] day_def [symmetric]
        timeOfDay_def [symmetric] endDay_def [symmetric] endOfDesiredMonth_def [symmetric]
        shown_def [symmetric])
  have o1: "- (k * msPerDay) \<le> utcOffset z date - localOffset z x" for x
    using off by (simp add: abs_le_iff) (metis add.commute diff_le_eq minus_diff_eq neg_le_iff_le)
  have o2: "- (k * msPerDay) \<le> utcOffset z x' - localOffset z x" for x x'
    using off by (simp add: abs_le_iff) (metis add.commute diff_le_eq minus_diff_eq neg_le_iff_le)
  have dt: "t = date + utcOffset z date" by (simp add: t_def localTime_def)
  have e1: "endOfDesiredMonth = endDay * msPerDay + timeOfDay - localOffset z (endDay * msPerDay + timeOfDay)"
    by (simp add: endOfDesiredMonth_def utcTime_def)
  have b1: "date + 28 * msPerDay - k * msPerDay \<le> endOfDesiredMonth"
  proof -
    have "(day + 28) * msPerDay \<le> endDay * msPerDay"
      using far d by (simp add: msPerDay_def)
    then have "t + 28 * msPerDay \<le> endDay * msPerDay + timeOfDay"
      using t by (simp add: algebra_simps)
    then show ?thesis
      using o1 [of "endDay * msPerDay + timeOfDay"] dt e1 by linarith
  qed
  have sh: "endDay - k \<le> shown"
  proof -
    have "localTime z endOfDesiredMonth
        = endDay * msPerDay + timeOfDay
          + (utcOffset z endOfDesiredMonth - localOffset z (endDay * msPerDay + timeOfDay))"
      by (simp add: localTime_def e1)
    then have "(endDay - k) * msPerDay \<le> localTime z endOfDesiredMonth"
      using o2 [of endOfDesiredMonth "endDay * msPerDay + timeOfDay"] tod
      by (simp add: algebra_simps)
    then have "(endDay - k) * msPerDay div msPerDay \<le> localTime z endOfDesiredMonth div msPerDay"
      by (rule zdiv_mono1) (simp add: msPerDay_def)
    then show ?thesis by (simp add: shown_def msPerDay_def)
  qed
  have b2: "date + 28 * msPerDay - 2 * k * msPerDay
              \<le> utcTime z (makeDay ey (em - 1) d * msPerDay + timeOfDay)"
  proof -
    have "day + 28 - k \<le> makeDay ey (em - 1) d"
      using keep sh far dim by linarith
    then have "(day + 28 - k) * msPerDay \<le> makeDay ey (em - 1) d * msPerDay"
      by (simp add: msPerDay_def)
    then have "t + 28 * msPerDay - k * msPerDay \<le> makeDay ey (em - 1) d * msPerDay + timeOfDay"
      using t by (simp add: algebra_simps)
    then show ?thesis
      using o1 [of "makeDay ey (em - 1) d * msPerDay + timeOfDay"] dt
      by (simp add: utcTime_def)
  qed
  have kk: "0 \<le> k * msPerDay" using k by (simp add: msPerDay_def)
  show ?thesis
    using b1 b2 kk by (simp add: res algebra_simps)
qed

lemma addMonths_examples:
  "addMonths utcZone 1706695200000 1 = 1709200800000"
  "addMonths utcZone 1702629000000 1 = 1705307400000"
  "addMonths kolkataZone 1711828800000 1 = 1714420800000"
  "addMonths utcZone 1711828800000 1 = 1714507200000"
  "addMonths newYorkZone 1676480400000 1 = 1678896000000"
  "addMonths newYorkZone 1676187000000 1 = 1678606200000"
  by code_simp+


text \<open>
  Claim C6. The new expiry of a renewal at the instant \<open>now\<close> is \<open>addMonths\<close> of the later
  of the expiry date of the pass and \<open>now\<close>, by one month: a pass that has not expired is
  extended from its expiry date, an expired pass from \<open>now\<close>. On a host whose offsets
  from UTC are all within a day, as those of every time zone are, the new expiry is
  strictly after both, by at least 24 days; on a host whose offset never changes, by at
  least 28 days. A processed \<open>rechargePass\<close> answers with the new expiry of the pass it
  found in its render and stores the passes of that render with this expiry on the
  passes of that id.
\<close>

theorem rechargePass_renewal:
  "newExpiry z pass now = addMonths z (max (expiryDate pass) now) 1
   \<and> (now < expiryDate pass \<longrightarrow> newExpiry z pass now = addMonths z (expiryDate pass) 1)
   \<and> (expiryDate pass \<le> now \<longrightarrow> newExpiry z pass now = addMonths z now 1)
   \<and> ((\<forall>t. \<bar>utcOffset z t\<bar> \<le> msPerDay \<and> \<bar>localOffset z t\<bar> \<le> msPerDay)
        \<longrightarrow> max (expiryDate pass) now < newExpiry z pass now
          \<and> max (expiryDate pass) now + 24 * msPerDay \<le> newExpiry z pass now)
   \<and> ((\<forall>t. utcOffset z t = offset \<and> localOffset z t = offset)
        \<longrightarrow> max (expiryDate pass) now + 28 * msPerDay \<le> newExpiry z pass now)
   \<and> (find (\<lambda>p. passId p = pid) (passes snap) = Some pass \<and> \<not> notLoggedIn userId \<and> \<not> updateError
        \<longrightarrow> fst (rechargePass z snap userId now updateError pid st) = Recharged (newExpiry z pass now)
          \<and> length (passes (snd (rechargePass z snap userId now updateError pid st))) = length (passes snap)
          \<and> (\<forall>i < length (passes snap).
                passes (snd (rechargePass z snap userId now updateError pid st)) ! i
                  = (if passId (passes snap ! i) = pid
                     then (passes snap ! i)\<lparr>expiryDate := newExpiry z pass now\<rparr>
                     else passes snap ! i)))"
proof -
  have base: "newExpiry z pass now = addMonths z (max (expiryDate pass) now) 1"
    by (simp add: newExpiry_def Let_def isAfter_def max_def)
  have day: "(\<forall>t. \<bar>utcOffset z t\<bar> \<le> msPerDay \<and> \<bar>localOffset z t\<bar> \<le> msPerDay)
        \<longrightarrow> max (expiryDate pass) now < newExpiry z pass now
          \<and> max (expiryDate pass) now + 24 * msPerDay \<le> newExpiry z pass now"
  proof
    assume a: "\<forall>t. \<bar>utcOffset z t\<bar> \<le> msPerDay \<and> \<bar>localOffset z t\<bar> \<le> msPerDay"
    have "\<forall>s t. \<bar>utcOffset z s - localOffset z t\<bar> \<le> 2 * msPerDay"
    proof (intro allI)
      fix s t
      from a have "\<bar>utcOffset z s\<bar> \<le> msPerDay" "\<bar>localOffset z t\<bar> \<le> msPerDay" by simp_all
      then show "\<bar>utcOffset z s - localOffset z t\<bar> \<le> 2 * msPerDay" by linarith
    qed
    from addMonths_one_later [of 2 z "max (expiryDate pass) now", OF _ this]
    have l: "max (expiryDate pass) now + 24 * msPerDay \<le> newExpiry z pass now"
      by (simp add: base)
    then have "max (expiryDate pass) now < newExpiry z pass now"
      unfolding msPerDay_def by linarith
    with l show "max (expiryDate pass) now < newExpiry z pass now
          \<and> max (expiryDate pass) now + 24 * msPerDay \<le> newExpiry z pass now" by simp
  qed
  have const: "(\<forall>t. utcOffset z t = offset \<and> localOffset z t = offset)
        \<longrightarrow> max (expiryDate pass) now + 28 * msPerDay \<le> newExpiry z pass now"
  proof
    assume a: "\<forall>t. utcOffset z t = offset \<and> localOffset z t = offset"
    then have "\<forall>s t. \<bar>utcOffset z s - localOffset z t\<bar> \<le> 0 * msPerDay" by simp
    from addMonths_one_later [of 0 z "max (expiryDate pass) now", OF _ this]
    show "max (expiryDate pass) now + 28 * msPerDay \<le> newExpiry z pass now"
      by (simp add: base)
  qed
  have upd: "find (\<lambda>p. passId p = pid) (passes snap) = Some pass \<and> \<not> notLoggedIn userId \<and> \<not> updateError
        \<longrightarrow> fst (rechargePass z snap userId now updateError pid st) = Recharged (newExpiry z pass now)
          \<and> length (passes (snd (rechargePass z snap userId now updateError pid st))) = length (passes snap)
          \<and> (\<forall>i < length (passes snap).
                passes (snd (rechargePass z snap userId now updateError pid st)) ! i
                  = (if passId (passes snap ! i) = pid
                     then (passes snap ! i)\<lparr>expiryDate := newExpiry z pass now\<rparr>
                     else passes snap ! i))"
    by (simp add: rechargePass_def)
  have unexp: "now < expiryDate pass \<longrightarrow> newExpiry z pass now = addMonths z (expiryDate pass) 1"
    by (simp add: base max_def)
  have exp: "expiryDate pass \<le> now \<longrightarrow> newExpiry z pass now = addMonths z now 1"
    by (simp add: base max_def)
  show ?thesis
    by (intro conjI) (rule base, rule unexp, rule exp, rule day, rule const, rule upd)
qed

text \<open>
  On 15 December 2023 a host on UTC renews a pass valid until 31 January 2024, 10:00, to
  29 February 2024, 10:00, and a pass that expired on 31 January 2023 to 15 January 2024.
  A pass valid until 30 March 2024, 20:00 UTC, is renewed to 30 April, 20:00 UTC, by a
  host on UTC and to 29 April, 20:00 UTC, by a host in India, where the expiry falls on
  31 March, 1:30. A host in New York renews a pass valid until 15 February 2023, 12:00
  there, to 15 March 2023, 12:00 there, which is 28 days less one hour later.
\<close>

theorem rechargePass_renewal_witness:
  "newExpiry utcZone (examplePass 1706695200000) 1702629000000 = 1709200800000
   \<and> newExpiry utcZone (examplePass 1675159200000) 1702629000000 = 1705307400000
   \<and> newExpiry utcZone (examplePass 1711828800000) 1702629000000 = 1714507200000
   \<and> newExpiry kolkataZone (examplePass 1711828800000) 1702629000000 = 1714420800000
   \<and> (\<forall>t. utcOffset kolkataZone t = 19800000 \<and> localOffset kolkataZone t = 19800000)
   \<and> 1711828800000 + 28 * msPerDay \<le> newExpiry kolkataZone (examplePass 1711828800000) 1702629000000
   \<and> newExpiry newYorkZone (examplePass 1676480400000) 1675159200000 = 1678896000000
   \<and> 1678896000000 = 1676480400000 + 28 * msPerDay - 3600000
   \<and> (\<forall>t. \<bar>utcOffset newYorkZone t\<bar> \<le> msPerDay \<and> \<bar>localOffset newYorkZone t\<bar> \<le> msPerDay)
   \<and> 1676480400000 < newExpiry newYorkZone (examplePass 1676480400000) 1675159200000
   \<and> rechargePass kolkataZone (initialState\<lparr>passes := [examplePass 1711828800000]\<rparr>)
        (Some 7) 1702629000000 False ''MS-1F2E''
        (initialState\<lparr>passes := [examplePass 1711828800000]\<rparr>)
       = (Recharged 1714420800000, initialState\<lparr>passes := [examplePass 1714420800000]\<rparr>)"
proof -
  let ?st = "initialState\<lparr>passes := [examplePass 1711828800000]\<rparr>"
  have a: "newExpiry utcZone (examplePass 1706695200000) 1702629000000 = 1709200800000"
    using rechargePass_renewal [of utcZone "examplePass 1706695200000" 1702629000000]
    by (simp add: examplePass_def addMonths_examples)
  have b: "newExpiry utcZone (examplePass 1675159200000) 1702629000000 = 1705307400000"
    using rechargePass_renewal [of utcZone "examplePass 1675159200000" 1702629000000]
    by (simp add: examplePass_def addMonths_examples)
  have c: "newExpiry utcZone (examplePass 1711828800000) 1702629000000 = 1714507200000"
    using rechargePass_renewal [of utcZone "examplePass 1711828800000" 1702629000000]
    by (simp add: examplePass_def addMonths_examples)
  note k = rechargePass_renewal [of kolkataZone "examplePass 1711828800000" 1702629000000
      19800000 "''MS-1F2E''" ?st "Some 7" False ?st]
  have d: "newExpiry kolkataZone (examplePass 1711828800000) 1702629000000 = 1714420800000"
    using k by (simp add: examplePass_def addMonths_examples)
  have h: "\<forall>t. utcOffset kolkataZone t = 19800000 \<and> localOffset kolkataZone t = 19800000"
    by (simp add: kolkataZone_def)
  have m: "max (expiryDate (examplePass 1711828800000)) 1702629000000 + 28 * msPerDay
            \<le> newExpiry kolkataZone (examplePass 1711828800000) 1702629000000"
    using k h by blast
  then have l: "1711828800000 + 28 * msPerDay
            \<le> newExpiry kolkataZone (examplePass 1711828800000) 1702629000000"
    by (simp add: examplePass_def)
  note n = rechargePass_renewal [of newYorkZone "examplePass 1676480400000" 1675159200000]
  have e: "newExpiry newYorkZone (examplePass 1676480400000) 1675159200000 = 1678896000000"
    using n by (simp add: examplePass_def addMonths_examples)
  have f: "(1678896000000::int) = 1676480400000 + 28 * msPerDay - 3600000"
    by (simp add: msPerDay_def)
  have g: "\<forall>t. \<bar>utcOffset newYorkZone t\<bar> \<le> msPerDay \<and> \<bar>localOffset newYorkZone t\<bar> \<le> msPerDay"
    by (simp add: newYorkZone_def msPerDay_def)
  have "max (expiryDate (examplePass 1676480400000)) 1675159200000
          < newExpiry newYorkZone (examplePass 1676480400000) 1675159200000"
    using n g by blast
  then have o: "1676480400000 < newExpiry newYorkZone (examplePass 1676480400000) 1675159200000"
    by (simp add: examplePass_def)
  have fnd: "find (\<lambda>p. passId p = ''MS-1F2E'') (passes ?st) = Some (examplePass 1711828800000)
           \<and> \<not> notLoggedIn (Some 7) \<and> \<not> False"
    by (simp add: examplePass_def notLoggedIn_def)
  have "fst (rechargePass kolkataZone ?st (Some 7) 1702629000000 False ''MS-1F2E'' ?st)
          = Recharged (newExpiry kolkataZone (examplePass 1711828800000) 1702629000000)"
    using k fnd by blast
  then have i: "rechargePass kolkataZone ?st (Some 7) 1702629000000 False ''MS-1F2E'' ?st
       = (Recharged 1714420800000, initialState\<lparr>passes := [examplePass 1714420800000]\<rparr>)"
    using d by (simp add: rechargePass_def examplePass_def notLoggedIn_def)
  show ?thesis
    by (intro conjI) (rule a, rule b, rule c, rule d, rule h, rule l, rule e, rule f, rule g,
        rule o, rule i)
qed

end
